theory Spec2Isabelle
  imports Main
begin

section \<open>The request queue\<close>

text \<open>
  The server keeps one process-wide queue in front of the rate-limited catalogue API:
  \<^verbatim>\<open>
  const RATE_LIMIT_DELAY = 1000;
  const queue = [];
  let isProcessing = false;

  function enqueueRequest(requestFn) {
    return new Promise((resolve, reject) => {
      queue.push({ requestFn, resolve, reject });
      if (!isProcessing) { processQueue(); }
    });
  }

  async function processQueue() {
    if (queue.length === 0) { isProcessing = false; return; }
    isProcessing = true;
    const { requestFn, resolve, reject } = queue.shift();
    try { const result = await requestFn(); resolve(result); }
    catch (error) { reject(error); }
    setTimeout(processQueue, RATE_LIMIT_DELAY);
  }
  \<close>
  The runtime is single threaded: a piece of code runs to its next \<open>await\<close> without
  interruption. The model is therefore a state machine whose steps are the runs of the
  event loop that touch the queue: a call of \<open>enqueueRequest\<close>, the continuation of a
  suspended \<open>processQueue\<close> after its \<open>await\<close>, the callback of a timer, and the passing
  of time.

  A work function is a thunk returning a promise. The promise is modelled by the outcome
  it settles with; when it settles is decided by the environment (event \<open>Settle\<close>), and a
  work function that hangs is one whose \<open>Settle\<close> never comes. A synchronous throw of
  \<open>requestFn()\<close> is caught by the same \<open>try\<close> and is the outcome \<open>Rejected\<close>. A work
  function does not touch the queue while it is being invoked: the jobs of this server
  are calls of \<open>axios.get\<close>. Time is counted in milliseconds.
\<close>

datatype ('e, 'a) outcome = Fulfilled 'a | Rejected 'e

definition RATE_LIMIT_DELAY :: nat where
  "RATE_LIMIT_DELAY = 1000"

text \<open>
  A queue entry \<open>{ requestFn, resolve, reject }\<close>. The pair \<open>resolve\<close>/\<open>reject\<close> belongs
  to the promise created by that call of \<open>enqueueRequest\<close>; the promise is identified by
  the number \<open>handle\<close>, the count of earlier calls.
\<close>

record ('e, 'a) job =
  requestFn :: "unit \<Rightarrow> ('e, 'a) outcome"
  handle :: nat

text \<open>
  What an observer sees, with the time in milliseconds: a submission, the invocation of
  a work function, and the call of \<open>resolve\<close> or of \<open>reject\<close> of a handle.
\<close>

datatype ('e, 'a) obs =
    Submitted nat "unit \<Rightarrow> ('e, 'a) outcome" nat
  | Invoked nat nat
  | Resolve nat 'a nat
  | Reject nat 'e nat

text \<open>
  The state: the two variables of the source, the suspended activations of
  \<open>processQueue\<close> (each holds its entry's handle and the promise it awaits), the due
  times of the pending \<open>setTimeout(processQueue, RATE_LIMIT_DELAY)\<close> callbacks, the clock,
  the number of promises created so far, and the observations in chronological order.
  Activations and timers are lists: nothing in the data excludes several of them.
\<close>

record ('e, 'a) qstate =
  queue :: "('e, 'a) job list"
  isProcessing :: bool
  awaiting :: "(nat \<times> ('e, 'a) outcome) list"
  timers :: "nat list"
  clock :: nat
  nextHandle :: nat
  trace :: "('e, 'a) obs list"

definition init :: "('e, 'a) qstate" where
  "init = \<lparr>queue = [], isProcessing = False, awaiting = [], timers = [], clock = 0,
           nextHandle = 0, trace = []\<rparr>"

text \<open>\<open>processQueue\<close> up to its \<open>await\<close>.\<close>

definition processQueue :: "('e, 'a) qstate \<Rightarrow> ('e, 'a) qstate" where
  "processQueue s =
     (case queue s of
        [] \<Rightarrow> s\<lparr>isProcessing := False\<rparr>
      | j # rest \<Rightarrow>
          s\<lparr>isProcessing := True,
            queue := rest,
            awaiting := awaiting s @ [(handle j, requestFn j ())],
            trace := trace s @ [Invoked (handle j) (clock s)]\<rparr>)"

text \<open>
  \<open>processQueue\<close> after its \<open>await\<close>, for the activation at position \<open>i\<close>: the outcome
  goes to \<open>resolve\<close> or to \<open>reject\<close>, then the timer is set.
\<close>

definition deliver :: "nat \<Rightarrow> ('e, 'a) outcome \<Rightarrow> nat \<Rightarrow> ('e, 'a) obs" where
  "deliver h oc t = (case oc of Fulfilled v \<Rightarrow> Resolve h v t | Rejected e \<Rightarrow> Reject h e t)"

definition removeAt :: "nat \<Rightarrow> 'x list \<Rightarrow> 'x list" where
  "removeAt i xs = take i xs @ drop (Suc i) xs"

definition resume :: "nat \<Rightarrow> ('e, 'a) qstate \<Rightarrow> ('e, 'a) qstate" where
  "resume i s =
     (let (h, oc) = awaiting s ! i in
      s\<lparr>awaiting := removeAt i (awaiting s),
        trace := trace s @ [deliver h oc (clock s)],
        timers := timers s @ [clock s + RATE_LIMIT_DELAY]\<rparr>)"

text \<open>\<open>enqueueRequest\<close>: the executor of the new promise runs synchronously.\<close>

definition enqueueRequest ::
  "(unit \<Rightarrow> ('e, 'a) outcome) \<Rightarrow> ('e, 'a) qstate \<Rightarrow> ('e, 'a) qstate" where
  "enqueueRequest fn s =
     (let h = nextHandle s;
          s1 = s\<lparr>queue := queue s @ [\<lparr>requestFn = fn, handle = h\<rparr>],
                 nextHandle := Suc h,
                 trace := trace s @ [Submitted h fn (clock s)]\<rparr>
      in if \<not> isProcessing s1 then processQueue s1 else s1)"

text \<open>
  The events. \<open>Settle i\<close> is enabled for an existing activation, \<open>Fire i\<close> for an existing
  timer that is due: a timer callback never runs before its delay has passed, and may
  run later.
\<close>

datatype ('e, 'a) event =
    Submit "unit \<Rightarrow> ('e, 'a) outcome"
  | Settle nat
  | Fire nat
  | Tick nat

fun step :: "('e, 'a) event \<Rightarrow> ('e, 'a) qstate \<Rightarrow> ('e, 'a) qstate option" where
  "step (Submit fn) s = Some (enqueueRequest fn s)"
| "step (Settle i) s = (if i < length (awaiting s) then Some (resume i s) else None)"
| "step (Fire i) s =
     (if i < length (timers s) \<and> timers s ! i \<le> clock s
      then Some (processQueue (s\<lparr>timers := removeAt i (timers s)\<rparr>))
      else None)"
| "step (Tick d) s = Some (s\<lparr>clock := clock s + d\<rparr>)"

fun run :: "('e, 'a) event list \<Rightarrow> ('e, 'a) qstate \<Rightarrow> ('e, 'a) qstate option" where
  "run [] s = Some s"
| "run (e # es) s = (case step e s of None \<Rightarrow> None | Some s' \<Rightarrow> run es s')"

subsection \<open>Reading the observations\<close>

fun submissionOf :: "('e, 'a) obs \<Rightarrow> (nat \<times> (unit \<Rightarrow> ('e, 'a) outcome)) list" where
  "submissionOf (Submitted h fn t) = [(h, fn)]"
| "submissionOf _ = []"

fun invocationOf :: "('e, 'a) obs \<Rightarrow> (nat \<times> nat) list" where
  "invocationOf (Invoked h t) = [(h, t)]"
| "invocationOf _ = []"

fun deliveryOf :: "('e, 'a) obs \<Rightarrow> (nat \<times> ('e, 'a) outcome \<times> nat) list" where
  "deliveryOf (Resolve h v t) = [(h, Fulfilled v, t)]"
| "deliveryOf (Reject h e t) = [(h, Rejected e, t)]"
| "deliveryOf _ = []"

text \<open>
  The submissions (handle and work function), the invocations (handle and time) and the
  deliveries (handle, outcome and time) of a trace, each in chronological order.
\<close>

definition submissions :: "('e, 'a) obs list \<Rightarrow> (nat \<times> (unit \<Rightarrow> ('e, 'a) outcome)) list" where
  "submissions tr = concat (map submissionOf tr)"

definition invocations :: "('e, 'a) obs list \<Rightarrow> (nat \<times> nat) list" where
  "invocations tr = concat (map invocationOf tr)"

definition deliveries :: "('e, 'a) obs list \<Rightarrow> (nat \<times> ('e, 'a) outcome \<times> nat) list" where
  "deliveries tr = concat (map deliveryOf tr)"

text \<open>How often \<open>resolve\<close> or \<open>reject\<close> of handle \<open>h\<close> has been called.\<close>

definition settledCount :: "('e, 'a) obs list \<Rightarrow> nat \<Rightarrow> nat" where
  "settledCount tr h = length (filter (\<lambda>d. fst d = h) (deliveries tr))"

subsection \<open>The invariant of the reachable states\<close>

definition inv_order :: "('e, 'a) qstate \<Rightarrow> bool" where
  "inv_order s \<longleftrightarrow>
     map fst (submissions (trace s)) = [0..<nextHandle s] \<and>
     map fst (invocations (trace s)) @ map handle (queue s) = [0..<nextHandle s] \<and>
     map fst (deliveries (trace s)) @ map fst (awaiting s) = map fst (invocations (trace s))"

definition inv_guard :: "('e, 'a) qstate \<Rightarrow> bool" where
  "inv_guard s \<longleftrightarrow>
     length (awaiting s) + length (timers s) = (if isProcessing s then 1 else 0) \<and>
     (\<not> isProcessing s \<longrightarrow> queue s = [])"

definition inv_time :: "('e, 'a) qstate \<Rightarrow> bool" where
  "inv_time s \<longleftrightarrow>
     (\<forall>d \<in> set (deliveries (trace s)).
        snd (snd d) \<le> clock s \<and>
        (\<forall>due \<in> set (timers s). snd (snd d) + RATE_LIMIT_DELAY \<le> due) \<and>
        (\<not> isProcessing s \<longrightarrow> snd (snd d) + RATE_LIMIT_DELAY \<le> clock s))"

definition inv_space :: "('e, 'a) qstate \<Rightarrow> bool" where
  "inv_space s \<longleftrightarrow>
     (\<forall>d \<in> set (deliveries (trace s)). \<forall>i \<in> set (invocations (trace s)).
        fst d < fst i \<longrightarrow> snd (snd d) + RATE_LIMIT_DELAY \<le> snd i)"

definition inv_same :: "('e, 'a) qstate \<Rightarrow> bool" where
  "inv_same s \<longleftrightarrow>
     (\<forall>j \<in> set (queue s). (handle j, requestFn j) \<in> set (submissions (trace s))) \<and>
     (\<forall>a \<in> set (awaiting s). \<exists>fn. (fst a, fn) \<in> set (submissions (trace s)) \<and> fn () = snd a) \<and>
     (\<forall>d \<in> set (deliveries (trace s)).
        \<exists>fn. (fst d, fn) \<in> set (submissions (trace s)) \<and> fn () = fst (snd d))"

definition queue_inv :: "('e, 'a) qstate \<Rightarrow> bool" where
  "queue_inv s \<longleftrightarrow> inv_order s \<and> inv_guard s \<and> inv_time s \<and> inv_space s \<and> inv_same s"

subsection \<open>Running the loop to quiescence\<close>

text \<open>
  The schedule on which nothing new is submitted, every pending work function settles
  and every timer fires as soon as it is due. It ends when no activation is suspended
  and no timer is pending.
\<close>

function drainSchedule :: "('e, 'a) qstate \<Rightarrow> ('e, 'a) event list" where
  "drainSchedule s =
     (if awaiting s \<noteq> [] then Settle 0 # drainSchedule (resume 0 s)
      else case timers s of
             [] \<Rightarrow> []
           | due # _ \<Rightarrow>
               Tick (due - clock s) # Fire 0 #
               drainSchedule (processQueue (s\<lparr>clock := clock s + (due - clock s),
                                             timers := removeAt 0 (timers s)\<rparr>)))"
  by pat_completeness auto
termination
  apply (relation "measure (\<lambda>s. 3 * length (queue s) + 2 * length (awaiting s) + length (timers s))")
    apply simp
   apply (case_tac "awaiting s")
    apply (simp_all add: resume_def removeAt_def processQueue_def split: prod.splits list.splits)
  done

subsection \<open>Comparing two runs that differ in the outcomes only\<close>

fun sameShape :: "('e, 'a) event \<Rightarrow> ('f, 'b) event \<Rightarrow> bool" where
  "sameShape (Submit f) (Submit g) = True"
| "sameShape (Settle i) (Settle j) = (i = j)"
| "sameShape (Fire i) (Fire j) = (i = j)"
| "sameShape (Tick d) (Tick d') = (d = d')"
| "sameShape _ _ = False"

datatype mark = MSubmitted | MInvoked | MDelivered

fun markOf :: "('e, 'a) obs \<Rightarrow> mark \<times> nat \<times> nat" where
  "markOf (Submitted h fn t) = (MSubmitted, h, t)"
| "markOf (Invoked h t) = (MInvoked, h, t)"
| "markOf (Resolve h v t) = (MDelivered, h, t)"
| "markOf (Reject h e t) = (MDelivered, h, t)"

text \<open>
  Everything of a state but the outcomes: which handles are pending, the flag, which
  handle is being executed, the timers, the clock, and who was submitted, invoked and
  delivered when.
\<close>

definition schedule ::
  "('e, 'a) qstate \<Rightarrow> nat list \<times> bool \<times> nat list \<times> nat list \<times> nat \<times> nat \<times> (mark \<times> nat \<times> nat) list" where
  "schedule s =
     (map handle (queue s), isProcessing s, map fst (awaiting s), timers s, clock s,
      nextHandle s, map markOf (trace s))"

section \<open>The recommendation endpoint\<close>

text \<open>
  \<open>POST /api/recommend\<close> reads \<open>titles\<close>, \<open>genres\<close>, \<open>exclude\<close> and \<open>mediaType\<close> from
  the parsed JSON body, checks \<open>titles\<close>, and hands over to one of three assemblers. An
  assembler reaches the catalogue only through \<open>enqueueRequest\<close>.
\<close>

subsection \<open>JSON values as the handler sees them\<close>

text \<open>
  A parsed JSON value. Numbers are taken as integers: the code only tests them against
  zero. An object is the list of its own properties; a property is looked up with
  \<open>map_of\<close>. A field of the body that is absent (\<open>undefined\<close> in the source) is \<open>None\<close>.
\<close>

datatype json =
    JNull
  | JBool bool
  | JNum int
  | JStr string
  | JArr "json list"
  | JObj "(string \<times> json) list"

text \<open>Truthiness, as tested by \<open>!x\<close> and \<open>x && ...\<close>.\<close>

fun truthy :: "json option \<Rightarrow> bool" where
  "truthy None = False"
| "truthy (Some JNull) = False"
| "truthy (Some (JBool b)) = b"
| "truthy (Some (JNum n)) = (n \<noteq> 0)"
| "truthy (Some (JStr s)) = (s \<noteq> [])"
| "truthy (Some (JArr xs)) = True"
| "truthy (Some (JObj kvs)) = True"

text \<open>
  The property \<open>length\<close> of a value that is neither \<open>null\<close> nor \<open>undefined\<close>; \<open>None\<close>
  is \<open>undefined\<close>. The source reads it only behind a truthiness test, so the two cases
  in which the read itself would throw are not reached.
\<close>

fun lengthOf :: "json option \<Rightarrow> json option" where
  "lengthOf (Some (JArr xs)) = Some (JNum (int (length xs)))"
| "lengthOf (Some (JStr s)) = Some (JNum (int (length s)))"
| "lengthOf (Some (JObj kvs)) = map_of kvs ''length''"
| "lengthOf _ = None"

text \<open>
  Conversion to a string: of a template literal \<open>${x}\<close>, of \<open>encodeURIComponent(x)\<close>,
  and of the elements of an array by \<open>join\<close>. For a value that came out of
  \<open>JSON.parse\<close> it throws a TypeError exactly when it meets an object with an own
  property \<open>toString\<close>, which is then not callable; an array is converted by joining its
  elements.
\<close>

fun toStringThrows :: "json \<Rightarrow> bool" where
  "toStringThrows (JObj kvs) = (''toString'' \<in> fst ` set kvs)"
| "toStringThrows (JArr xs) = (\<exists>x \<in> set xs. toStringThrows x)"
| "toStringThrows _ = False"

text \<open>
  A string of the source is a sequence of 16-bit units, and \<open>JSON.parse\<close> accepts an
  escape such as \<open>\ud800\<close> that leaves half of a surrogate pair on its own. Here a
  string is held as bytes in the generalised UTF-8 form, where such a lone surrogate is
  three bytes, the first \<open>0xED\<close> and the second from \<open>0xA0\<close> to \<open>0xBF\<close>; no other text
  has these two bytes in a row. So equality and the search for an ASCII pattern are those
  of the source, a string is empty here exactly when it is empty there, and its length,
  which differs for text outside ASCII, is only ever tested against zero.
\<close>

definition surrogateSeconds :: "char list" where
  "surrogateSeconds =
     [CHR 0xA0, CHR 0xA1, CHR 0xA2, CHR 0xA3, CHR 0xA4, CHR 0xA5, CHR 0xA6, CHR 0xA7,
      CHR 0xA8, CHR 0xA9, CHR 0xAA, CHR 0xAB, CHR 0xAC, CHR 0xAD, CHR 0xAE, CHR 0xAF,
      CHR 0xB0, CHR 0xB1, CHR 0xB2, CHR 0xB3, CHR 0xB4, CHR 0xB5, CHR 0xB6, CHR 0xB7,
      CHR 0xB8, CHR 0xB9, CHR 0xBA, CHR 0xBB, CHR 0xBC, CHR 0xBD, CHR 0xBE, CHR 0xBF]"

fun loneSurrogate :: "string \<Rightarrow> bool" where
  "loneSurrogate (a # b # cs) =
     ((a = CHR 0xED \<and> b \<in> set surrogateSeconds) \<or> loneSurrogate (b # cs))"
| "loneSurrogate _ = False"

text \<open>
  \<open>encodeURIComponent(x)\<close> throws a URIError when the string of \<open>x\<close> holds a lone
  surrogate. The string of an array is that of its elements with commas between them,
  so a lone surrogate of an element stays alone; the strings of numbers, booleans,
  \<open>null\<close>, \<open>undefined\<close> and objects hold none.
\<close>

fun uriComponentThrows :: "json \<Rightarrow> bool" where
  "uriComponentThrows (JStr s) = loneSurrogate s"
| "uriComponentThrows (JArr xs) = (\<exists>x \<in> set xs. uriComponentThrows x)"
| "uriComponentThrows _ = False"

subsection \<open>Errors, upstream data and responses\<close>

text \<open>
  What can be thrown: a TypeError of the runtime, tagged with the expression that
  failed, the URIError of \<open>encodeURIComponent\<close>, or the failure of a call to the
  catalogue, with its message.
\<close>

datatype err = TypeError string | URIError string | UpstreamError string

datatype media = Manga | Anime

record genre =
  genre_id :: int
  genre_name :: string

text \<open>
  An entry of the catalogue, with the fields the assemblers use for control or copy
  into a recommendation. A field that the source guards somewhere (\<open>authors?.\<close>,
  \<open>studios?.\<close>, \<open>genres || []\<close>, \<open>type ||\<close>, \<open>synopsis ||\<close>, \<open>background &&\<close>,
  \<open>demographics &&\<close>) is optional, and an unguarded use of it where it is missing is a
  TypeError. \<open>authors\<close>, \<open>studios\<close> and \<open>demographics\<close> hold the names. The fields
  \<open>images\<close>, \<open>url\<close>, \<open>score\<close>, \<open>chapters\<close> and \<open>episodes\<close> are copied unchanged and are
  left out.
\<close>

record entry =
  mal_id :: int
  title :: string
  authors :: "string list option"
  studios :: "string list option"
  etype :: "string option"
  genres :: "genre list option"
  synopsis :: "string option"
  background :: "string option"
  demographics :: "string list option"

text \<open>An element of a recommendations list: \<open>{ entry: { mal_id, ... }, votes }\<close>.\<close>

record crowd =
  crowd_id :: int
  votes :: int

datatype reason =
    RecommendedBy int "json option"
  | SharesGenre string "json option"
  | HighlyRated media
  | PopularManhwa
  | HighlyRatedComic

record recommendation =
  rec_title :: string
  creator :: string
  rec_type :: string
  rec_genres :: "string list"
  description :: string
  similarTo :: "json option"
  whyRecommended :: reason

datatype message =
    ProvideTitle
  | CouldNotFind string "json option list"
  | Failed err

datatype payload =
    ErrorBody message
  | Result "recommendation list" string string

record response =
  status :: nat
  body :: payload

text \<open>
  The calls to the catalogue, one constructor for each URL pattern of the source, and
  the catalogue itself: what each call returns. Two operations of the runtime are
  taken as they are, with nothing assumed about them. \<open>toNumberPositive v\<close> stands for
  the test \<open>v > 0\<close> on a string, an array or an object, whose conversion to a number is
  not modelled; \<open>None\<close> means that the conversion throws. \<open>toLowerCase\<close> is the method of
  that name on strings, which follows the case tables of Unicode.
\<close>

datatype request =
    Search media "json option" nat
  | Recommendations media int
  | Details media int
  | ByGenre media int
  | Top media nat
  | SearchManhwa

record env =
  searchR :: "media \<Rightarrow> json option \<Rightarrow> nat \<Rightarrow> err + entry list"
  recsR :: "media \<Rightarrow> int \<Rightarrow> err + crowd list"
  detailsR :: "media \<Rightarrow> int \<Rightarrow> err + entry"
  genreR :: "media \<Rightarrow> int \<Rightarrow> err + entry list"
  topR :: "media \<Rightarrow> nat \<Rightarrow> err + entry list"
  manhwaR :: "err + entry list"
  toNumberPositive :: "json \<Rightarrow> bool option"
  toLowerCase :: "string \<Rightarrow> string"

subsection \<open>Asynchronous code that submits jobs and may throw\<close>

text \<open>
  An \<open>async\<close> function of the server is modelled by what it submits to the queue, in the
  order of the calls of \<open>enqueueRequest\<close>, and by what it returns or throws.
  \<open>await enqueueRequest(() => axios.get(url))\<close> submits one job and continues with the
  outcome of that job: the queue hands every job's own outcome back to its caller, once.
  The catalogue is taken to answer each call, and to answer equal calls equally.
\<close>

type_synonym 'a act = "request list \<times> (err + 'a)"

definition ret :: "'a \<Rightarrow> 'a act" where
  "ret x = ([], Inr x)"

definition throw :: "err \<Rightarrow> 'a act" where
  "throw e = ([], Inl e)"

definition andThen :: "'a act \<Rightarrow> ('a \<Rightarrow> 'b act) \<Rightarrow> 'b act" where
  "andThen m f =
     (case m of
        (l, Inl e) \<Rightarrow> (l, Inl e)
      | (l, Inr x) \<Rightarrow> (case f x of (l', r) \<Rightarrow> (l @ l', r)))"

definition catch :: "'a act \<Rightarrow> (err \<Rightarrow> 'a act) \<Rightarrow> 'a act" where
  "catch m h =
     (case m of
        (l, Inl e) \<Rightarrow> (case h e of (l', r) \<Rightarrow> (l @ l', r))
      | (l, Inr x) \<Rightarrow> (l, Inr x))"

definition lift :: "err + 'a \<Rightarrow> 'a act" where
  "lift r = ([], r)"

definition submit :: "request \<Rightarrow> err + 'a \<Rightarrow> 'a act" where
  "submit rq outcome = ([rq], outcome)"

text \<open>\<open>Promise.all(xs.map(async x => ...))\<close> for callbacks that never reject.\<close>

fun forEach :: "('a \<Rightarrow> 'b act) \<Rightarrow> 'a list \<Rightarrow> 'b list act" where
  "forEach f [] = ret []"
| "forEach f (x # xs) = andThen (f x) (\<lambda>y. andThen (forEach f xs) (\<lambda>ys. ret (y # ys)))"

text \<open>\<open>xs.map(f)\<close> for an \<open>f\<close> that may throw.\<close>

fun mapE :: "('a \<Rightarrow> err + 'b) \<Rightarrow> 'a list \<Rightarrow> err + 'b list" where
  "mapE f [] = Inr []"
| "mapE f (x # xs) =
     (case f x of
        Inl e \<Rightarrow> Inl e
      | Inr y \<Rightarrow> (case mapE f xs of Inl e \<Rightarrow> Inl e | Inr ys \<Rightarrow> Inr (y # ys)))"

text \<open>\<open>xs.filter(p)\<close> for a \<open>p\<close> that may throw.\<close>

fun filterE :: "('a \<Rightarrow> err + bool) \<Rightarrow> 'a list \<Rightarrow> err + 'a list" where
  "filterE p [] = Inr []"
| "filterE p (x # xs) =
     (case p x of
        Inl e \<Rightarrow> Inl e
      | Inr b \<Rightarrow> (case filterE p xs of Inl e \<Rightarrow> Inl e | Inr ys \<Rightarrow> Inr (if b then x # ys else ys)))"

subsection \<open>Strings\<close>

text \<open>
  Lowering the letters A to Z and nothing else: what \<open>toLowerCase\<close> does on text that is
  ASCII. It is the \<open>toLowerCase\<close> of the small catalogue below.
\<close>

definition lowerChar :: "char \<Rightarrow> char" where
  "lowerChar c =
     (case map_of (zip ''ABCDEFGHIJKLMNOPQRSTUVWXYZ'' ''abcdefghijklmnopqrstuvwxyz'') c of
        None \<Rightarrow> c
      | Some l \<Rightarrow> l)"

definition asciiLowerCase :: "string \<Rightarrow> string" where
  "asciiLowerCase s = map lowerChar s"

text \<open>\<open>s.includes(pat)\<close>.\<close>

fun str_includes :: "string \<Rightarrow> string \<Rightarrow> bool" where
  "str_includes [] pat = (pat = [])"
| "str_includes (c # cs) pat = (take (length pat) (c # cs) = pat \<or> str_includes cs pat)"

text \<open>\<open>xs.join(', ')\<close> on strings.\<close>

fun joinComma :: "string list \<Rightarrow> string" where
  "joinComma [] = []"
| "joinComma [x] = x"
| "joinComma (x # y # ys) = x @ '', '' @ joinComma (y # ys)"

text \<open>\<open>x || d\<close> for a string that may be missing: the empty string is falsy too.\<close>

definition orElse :: "string option \<Rightarrow> string \<Rightarrow> string" where
  "orElse x d = (case x of None \<Rightarrow> d | Some s \<Rightarrow> if s = [] then d else s)"


definition bindE :: "err + 'a \<Rightarrow> ('a \<Rightarrow> err + 'b) \<Rightarrow> err + 'b" where
  "bindE r f = (case r of Inl e \<Rightarrow> Inl e | Inr x \<Rightarrow> f x)"

subsection \<open>The filters\<close>

text \<open>\<open>v > 0\<close> for the value of a \<open>length\<close> property.\<close>

fun gtZero :: "env \<Rightarrow> json option \<Rightarrow> err + bool" where
  "gtZero w None = Inr False"
| "gtZero w (Some JNull) = Inr False"
| "gtZero w (Some (JBool b)) = Inr b"
| "gtZero w (Some (JNum n)) = Inr (0 < n)"
| "gtZero w (Some v) =
     (case toNumberPositive w v of None \<Rightarrow> Inl (TypeError ''length'') | Some b \<Rightarrow> Inr b)"

text \<open>\<open>genres && genres.length > 0\<close>.\<close>

definition filterGiven :: "env \<Rightarrow> json option \<Rightarrow> err + bool" where
  "filterGiven w g = (if truthy g then gtZero w (lengthOf g) else Inr False)"

text \<open>
  \<open>genres.map(g => g.toLowerCase())\<close>: only an array has a callable \<open>map\<close>, and only a
  string has \<open>toLowerCase\<close>.
\<close>

fun lowerOne :: "env \<Rightarrow> json \<Rightarrow> err + string" where
  "lowerOne w (JStr s) = Inr (toLowerCase w s)"
| "lowerOne w _ = Inl (TypeError ''toLowerCase'')"

fun lowerAll :: "env \<Rightarrow> json option \<Rightarrow> err + string list" where
  "lowerAll w (Some (JArr xs)) = mapE (lowerOne w) xs"
| "lowerAll w _ = Inl (TypeError ''map'')"

text \<open>\<open>m.genres.map(g => g.name.toLowerCase())\<close> and \<open>m.genres.map(g => g.name)\<close>.\<close>

definition genreNames :: "entry \<Rightarrow> err + string list" where
  "genreNames e =
     (case genres e of None \<Rightarrow> Inl (TypeError ''genres'') | Some gs \<Rightarrow> Inr (map genre_name gs))"

definition genreNamesLower :: "env \<Rightarrow> entry \<Rightarrow> err + string list" where
  "genreNamesLower w e = bindE (genreNames e) (\<lambda>ns. Inr (map (toLowerCase w) ns))"

text \<open>
  The genre filter and the exclusion filter on one entry; \<open>True\<close> keeps the entry.
  \<open>matchesSome\<close> is \<open>filterGenres.some(g => mangaGenres.includes(g))\<close>.
\<close>

definition matchesSome :: "string list \<Rightarrow> string list \<Rightarrow> bool" where
  "matchesSome wanted present = (\<exists>g \<in> set wanted. g \<in> set present)"

definition passesGenres :: "env \<Rightarrow> json option \<Rightarrow> entry \<Rightarrow> err + bool" where
  "passesGenres w g e =
     bindE (filterGiven w g) (\<lambda>given.
       if given
       then bindE (genreNamesLower w e) (\<lambda>present.
            bindE (lowerAll w g) (\<lambda>wanted. Inr (matchesSome wanted present)))
       else Inr True)"

definition passesExclude :: "env \<Rightarrow> json option \<Rightarrow> entry \<Rightarrow> err + bool" where
  "passesExclude w x e =
     bindE (filterGiven w x) (\<lambda>given.
       if given
       then bindE (genreNamesLower w e) (\<lambda>present.
            bindE (lowerAll w x) (\<lambda>unwanted. Inr (\<not> matchesSome unwanted present)))
       else Inr True)"

subsection \<open>The manga and the anime assembler\<close>

text \<open>
  \<open>getMangaRecommendations\<close> and \<open>getAnimeRecommendations\<close> are the same text up to the
  differences collected here: the path segment of the URLs, the field with the creators
  (\<open>authors\<close> or \<open>studios\<close>), and the default of \<open>type\<close>. They are modelled by one
  function of the media kind.
\<close>

fun label :: "media \<Rightarrow> string" where
  "label Manga = ''manga''"
| "label Anime = ''anime''"

fun creators :: "media \<Rightarrow> entry \<Rightarrow> string list option" where
  "creators Manga e = authors e"
| "creators Anime e = studios e"

fun defaultType :: "media \<Rightarrow> string" where
  "defaultType Manga = ''Manga''"
| "defaultType Anime = ''TV''"

text \<open>\<open>titles[i]\<close>.\<close>

definition nthTitle :: "json list \<Rightarrow> nat \<Rightarrow> json option" where
  "nthTitle ts i = (if i < length ts then Some (ts ! i) else None)"

text \<open>
  The job \<open>() => axios.get(`.../${media}?q=${encodeURIComponent(titles[i])}&limit=n`)\<close>:
  the title is converted to a string and encoded when the queue invokes the job, and
  the call goes out only if neither step throws.
\<close>

definition searchJob :: "env \<Rightarrow> media \<Rightarrow> json option \<Rightarrow> nat \<Rightarrow> err + entry list" where
  "searchJob w m t n =
     (case t of
        Some v \<Rightarrow>
          if toStringThrows v then Inl (TypeError ''encodeURIComponent'')
          else if uriComponentThrows v then Inl (URIError ''URI malformed'')
          else searchR w m t n
      | None \<Rightarrow> searchR w m t n)"

definition notFound :: "string \<Rightarrow> json option list \<Rightarrow> response" where
  "notFound what ts = \<lparr>status = 404, body = ErrorBody (CouldNotFind what ts)\<rparr>"

text \<open>The search for the base title: the first title, then the second if there is one.\<close>

definition findBase :: "env \<Rightarrow> media \<Rightarrow> json list \<Rightarrow> (response + entry) act" where
  "findBase w m ts =
     andThen (submit (Search m (nthTitle ts 0) 1) (searchJob w m (nthTitle ts 0) 1)) (\<lambda>first.
       case first of
         b # _ \<Rightarrow> ret (Inr b)
       | [] \<Rightarrow>
           if 1 < length ts
           then andThen (submit (Search m (nthTitle ts 1) 1) (searchJob w m (nthTitle ts 1) 1))
                  (\<lambda>second.
                     case second of
                       [] \<Rightarrow> ret (Inl (notFound (label m) [nthTitle ts 0, nthTitle ts 1]))
                     | b # _ \<Rightarrow> ret (Inr b))
           else ret (Inl (notFound (label m) [nthTitle ts 0])))"

text \<open>The record built from the details of a crowd-sourced recommendation.\<close>

definition crowdRec :: "media \<Rightarrow> json list \<Rightarrow> crowd \<Rightarrow> entry \<Rightarrow> err + recommendation" where
  "crowdRec m ts c e =
     bindE (case creators m e of None \<Rightarrow> Inl (TypeError ''creators'') | Some ns \<Rightarrow> Inr ns) (\<lambda>ns.
     bindE (genreNames e) (\<lambda>gs.
       Inr \<lparr>rec_title = title e,
            creator = joinComma ns,
            rec_type = orElse (etype e) (defaultType m),
            rec_genres = gs,
            description = orElse (synopsis e) ''No description available'',
            similarTo = nthTitle ts 0,
            whyRecommended = RecommendedBy (votes c) (nthTitle ts 0)\<rparr>))"

text \<open>
  The callback of \<open>Promise.all\<close>: one job for the details, then the two filters; anything
  thrown on the way is caught and gives \<open>null\<close>.
\<close>

definition crowdOne ::
  "env \<Rightarrow> media \<Rightarrow> json list \<Rightarrow> json option \<Rightarrow> json option \<Rightarrow> crowd \<Rightarrow> recommendation option act" where
  "crowdOne w m ts g x c =
     catch
       (andThen (submit (Details m (crowd_id c)) (detailsR w m (crowd_id c))) (\<lambda>e.
          lift (bindE (passesGenres w g e) (\<lambda>keep.
                  if \<not> keep then Inr None
                  else bindE (passesExclude w x e) (\<lambda>keep'.
                         if \<not> keep' then Inr None
                         else bindE (crowdRec m ts c e) (\<lambda>r. Inr (Some r)))))))
       (\<lambda>_. ret None)"

definition crowdTier ::
  "env \<Rightarrow> media \<Rightarrow> json list \<Rightarrow> json option \<Rightarrow> json option \<Rightarrow> crowd list \<Rightarrow> recommendation list act" where
  "crowdTier w m ts g x cs =
     andThen (forEach (crowdOne w m ts g x) (take 8 cs)) (\<lambda>rs. ret (List.map_filter (\<lambda>r. r) rs))"

text \<open>The record built from an entry of a fallback tier.\<close>

definition fallbackRec ::
  "media \<Rightarrow> json option \<Rightarrow> reason \<Rightarrow> entry \<Rightarrow> err + recommendation" where
  "fallbackRec m sim why e =
     bindE (genreNames e) (\<lambda>gs.
       Inr \<lparr>rec_title = title e,
            creator = orElse (map_option joinComma (creators m e)) ''Unknown'',
            rec_type = orElse (etype e) (defaultType m),
            rec_genres = gs,
            description = orElse (synopsis e) ''No description available'',
            similarTo = sim,
            whyRecommended = why\<rparr>)"

definition genreTier ::
  "env \<Rightarrow> media \<Rightarrow> json list \<Rightarrow> entry \<Rightarrow> recommendation list \<Rightarrow> recommendation list act" where
  "genreTier w m ts base recs =
     (case (case genres base of None \<Rightarrow> [] | Some gs \<Rightarrow> gs) of
        [] \<Rightarrow> ret recs
      | g # _ \<Rightarrow>
          andThen (submit (ByGenre m (genre_id g)) (genreR w m (genre_id g))) (\<lambda>es.
          andThen (lift (mapE (fallbackRec m (nthTitle ts 0) (SharesGenre (genre_name g) (nthTitle ts 0)))
                           (filter (\<lambda>e. mal_id e \<noteq> mal_id base) es))) (\<lambda>genreRecs.
          ret (recs @ genreRecs))))"

definition topTier ::
  "env \<Rightarrow> media \<Rightarrow> json list \<Rightarrow> entry \<Rightarrow> recommendation list \<Rightarrow> recommendation list act" where
  "topTier w m ts base recs =
     andThen (submit (Top m 5) (topR w m 5)) (\<lambda>es.
     andThen (lift (mapE (fallbackRec m (nthTitle ts 0) (HighlyRated m))
                      (filter (\<lambda>e. mal_id e \<noteq> mal_id base) es))) (\<lambda>topRecs.
     ret (recs @ topRecs)))"

definition found :: "recommendation list \<Rightarrow> string \<Rightarrow> string \<Rightarrow> response" where
  "found recs baseTitle kind = \<lparr>status = 200, body = Result (take 5 recs) baseTitle kind\<rparr>"

text \<open>The assembler from the point where the base title is known.\<close>

definition fromBase ::
  "env \<Rightarrow> media \<Rightarrow> json list \<Rightarrow> json option \<Rightarrow> json option \<Rightarrow> entry \<Rightarrow> response act" where
  "fromBase w m ts g x base =
     andThen (submit (Recommendations m (mal_id base)) (recsR w m (mal_id base))) (\<lambda>cs.
     andThen (if cs \<noteq> [] then crowdTier w m ts g x cs else ret []) (\<lambda>r1.
     andThen (if length r1 < 5 then genreTier w m ts base r1 else ret r1) (\<lambda>r2.
     andThen (if length r2 < 5 then topTier w m ts base r2 else ret r2) (\<lambda>r3.
     ret (found r3 (title base) (label m))))))"

definition assemble ::
  "env \<Rightarrow> media \<Rightarrow> json list \<Rightarrow> json option \<Rightarrow> json option \<Rightarrow> response act" where
  "assemble w m ts g x =
     andThen (findBase w m ts) (\<lambda>b.
       case b of
         Inl resp \<Rightarrow> ret resp
       | Inr base \<Rightarrow> fromBase w m ts g x base)"

definition getMangaRecommendations ::
  "env \<Rightarrow> json list \<Rightarrow> json option \<Rightarrow> json option \<Rightarrow> response act" where
  "getMangaRecommendations w ts g x = assemble w Manga ts g x"

definition getAnimeRecommendations ::
  "env \<Rightarrow> json list \<Rightarrow> json option \<Rightarrow> json option \<Rightarrow> response act" where
  "getAnimeRecommendations w ts g x = assemble w Anime ts g x"

subsection \<open>The manhwa assembler\<close>

definition isManhwa :: "env \<Rightarrow> entry \<Rightarrow> bool" where
  "isManhwa w e \<longleftrightarrow>
     str_includes (toLowerCase w (title e)) ''manhwa'' \<or>
     (case background e of
        None \<Rightarrow> False
      | Some b \<Rightarrow> b \<noteq> [] \<and> str_includes (toLowerCase w b) ''korean'') \<or>
     (case demographics e of None \<Rightarrow> False | Some ds \<Rightarrow> ''Manhwa'' \<in> set ds)"

definition findManhwa :: "env \<Rightarrow> json list \<Rightarrow> (response + entry \<times> json option) act" where
  "findManhwa w ts =
     andThen (submit (Search Manga (nthTitle ts 0) 5) (searchJob w Manga (nthTitle ts 0) 5)) (\<lambda>first.
       case first of
         b # _ \<Rightarrow>
           ret (Inr (case List.find (isManhwa w) first of Some e \<Rightarrow> e | None \<Rightarrow> b, nthTitle ts 0))
       | [] \<Rightarrow>
           if 1 < length ts
           then andThen (submit (Search Manga (nthTitle ts 1) 5) (searchJob w Manga (nthTitle ts 1) 5))
                  (\<lambda>second.
                     case second of
                       b # _ \<Rightarrow> ret (Inr (b, nthTitle ts 1))
                     | [] \<Rightarrow> ret (Inl (notFound ''manhwa with these titles'' [])))
           else ret (Inl (notFound ''manhwa'' [nthTitle ts 0])))"

definition manhwaRec :: "json option \<Rightarrow> entry \<Rightarrow> err + recommendation" where
  "manhwaRec sim e =
     bindE (genreNames e) (\<lambda>gs.
       Inr \<lparr>rec_title = title e,
            creator = orElse (map_option joinComma (authors e)) ''Unknown'',
            rec_type = ''Manhwa'',
            rec_genres = gs,
            description = orElse (synopsis e) ''No description available'',
            similarTo = sim,
            whyRecommended = PopularManhwa\<rparr>)"

text \<open>
  The tier of popular manhwa. Here both filters run over the whole list, outside any
  \<open>try\<close>: what they throw ends the request.
\<close>

definition manhwaTier ::
  "env \<Rightarrow> json option \<Rightarrow> json option \<Rightarrow> entry \<Rightarrow> json option \<Rightarrow> entry list \<Rightarrow> err + recommendation list" where
  "manhwaTier w g x manhwa sim popular =
     (let manhwaList = filter (\<lambda>e. mal_id e \<noteq> mal_id manhwa) popular in
      bindE (filterGiven w g) (\<lambda>given.
      bindE (if given
             then bindE (lowerAll w g) (\<lambda>wanted.
                    filterE (\<lambda>e. bindE (genreNamesLower w e) (\<lambda>present. Inr (matchesSome wanted present)))
                      manhwaList)
             else Inr manhwaList) (\<lambda>filtered.
      bindE (filterGiven w x) (\<lambda>given'.
      bindE (if given'
             then bindE (lowerAll w x) (\<lambda>unwanted.
                    filterE (\<lambda>e. bindE (genreNamesLower w e) (\<lambda>present. Inr (\<not> matchesSome unwanted present)))
                      filtered)
             else Inr filtered) (\<lambda>filtered'.
      mapE (manhwaRec sim) (take 5 filtered'))))))"

definition manhwaTop ::
  "env \<Rightarrow> entry \<Rightarrow> json option \<Rightarrow> recommendation list \<Rightarrow> recommendation list act" where
  "manhwaTop w manhwa sim recs =
     andThen (submit (Top Manga 10) (topR w Manga 10)) (\<lambda>es.
     andThen (lift (mapE (fallbackRec Manga sim HighlyRatedComic)
                      (take (5 - length recs) (filter (\<lambda>e. mal_id e \<noteq> mal_id manhwa) es)))) (\<lambda>topRecs.
     ret (recs @ topRecs)))"

definition fromManhwa ::
  "env \<Rightarrow> json option \<Rightarrow> json option \<Rightarrow> entry \<Rightarrow> json option \<Rightarrow> response act" where
  "fromManhwa w g x manhwa sim =
     andThen (submit SearchManhwa (manhwaR w)) (\<lambda>popular.
     andThen (if popular \<noteq> [] then lift (manhwaTier w g x manhwa sim popular) else ret []) (\<lambda>r1.
     andThen (if length r1 < 5 then manhwaTop w manhwa sim r1 else ret r1) (\<lambda>r2.
     ret (found r2 (title manhwa) ''manhwa''))))"

definition getManhwaRecommendations ::
  "env \<Rightarrow> json list \<Rightarrow> json option \<Rightarrow> json option \<Rightarrow> response act" where
  "getManhwaRecommendations w ts g x =
     andThen (findManhwa w ts) (\<lambda>b.
       case b of
         Inl resp \<Rightarrow> ret resp
       | Inr (manhwa, sim) \<Rightarrow> fromManhwa w g x manhwa sim)"

subsection \<open>The handler\<close>

record reqBody =
  req_titles :: "json option"
  req_genres :: "json option"
  req_exclude :: "json option"
  req_mediaType :: "json option"

text \<open>\<open>mediaType = 'manga'\<close> in the destructuring: the default replaces \<open>undefined\<close> only.\<close>

definition mediaTypeOf :: "reqBody \<Rightarrow> json" where
  "mediaTypeOf b = (case req_mediaType b of None \<Rightarrow> JStr ''manga'' | Some v \<Rightarrow> v)"

text \<open>
  The line \<open>console.log(`Getting ${mediaType} recommendations based on:
  ${titles.join(', ')}`)\<close>: it converts \<open>mediaType\<close>, then calls \<open>titles.join\<close>, which
  only an array has. It yields the elements of \<open>titles\<close>.
\<close>

definition logLine :: "reqBody \<Rightarrow> json list act" where
  "logLine b =
     (if toStringThrows (mediaTypeOf b) then throw (TypeError ''mediaType'')
      else case req_titles b of
             Some (JArr ts) \<Rightarrow>
               if \<exists>t \<in> set ts. toStringThrows t then throw (TypeError ''join'') else ret ts
           | _ \<Rightarrow> throw (TypeError ''titles.join is not a function''))"

definition dispatch :: "env \<Rightarrow> reqBody \<Rightarrow> json list \<Rightarrow> response act" where
  "dispatch w b ts =
     (if mediaTypeOf b = JStr ''anime'' then getAnimeRecommendations w ts (req_genres b) (req_exclude b)
      else if mediaTypeOf b = JStr ''manhwa'' then getManhwaRecommendations w ts (req_genres b) (req_exclude b)
      else getMangaRecommendations w ts (req_genres b) (req_exclude b))"

text \<open>
  The handler: what it submitted to the queue, and the response. The \<open>catch\<close> of the
  handler turns whatever was thrown into a response with status 500.
\<close>

definition recommend :: "env \<Rightarrow> reqBody \<Rightarrow> request list \<times> response" where
  "recommend w b =
     (if \<not> truthy (req_titles b) \<or> lengthOf (req_titles b) = Some (JNum 0)
      then ([], \<lparr>status = 400, body = ErrorBody ProvideTitle\<rparr>)
      else case andThen (logLine b) (dispatch w b) of
             (l, Inl e) \<Rightarrow> (l, \<lparr>status = 500, body = ErrorBody (Failed e)\<rparr>)
           | (l, Inr r) \<Rightarrow> (l, r))"

subsection \<open>The responses of an assembler\<close>

text \<open>
  The two shapes in which an assembler answers: status 200 with at most five
  recommendations, or status 404 with a message naming what was not found.
\<close>

fun assembled :: "response \<Rightarrow> bool" where
  "assembled r =
     (case body r of
        Result recs t k \<Rightarrow> status r = 200 \<and> length recs \<le> 5
      | ErrorBody (CouldNotFind what ts) \<Rightarrow> status r = 404
      | ErrorBody _ \<Rightarrow> False)"

subsection \<open>A small catalogue\<close>

text \<open>
  A catalogue to run the assemblers on. Every search finds the base title, which has
  the genre Action. Two titles are recommended by users: one is a horror title, the
  other a comedy. The list for the genre Action holds the base title and three others,
  one of them a horror title; the top list holds four titles.
\<close>

definition mkEntry :: "int \<Rightarrow> string \<Rightarrow> string list \<Rightarrow> entry" where
  "mkEntry i t gs =
     \<lparr>mal_id = i, title = t, authors = Some [''A''], studios = Some [''S''], etype = None,
      genres = Some (map (\<lambda>g. \<lparr>genre_id = int (length g), genre_name = g\<rparr>) gs),
      synopsis = None, background = None, demographics = None\<rparr>"

definition catalogue :: env where
  "catalogue =
     \<lparr>searchR = (\<lambda>m t n. Inr [mkEntry 2 ''Base'' [''Action'']]),
      recsR = (\<lambda>m i. Inr [\<lparr>crowd_id = 10, votes = 7\<rparr>, \<lparr>crowd_id = 11, votes = 3\<rparr>]),
      detailsR = (\<lambda>m i. if i = 10 then Inr (mkEntry 10 ''Crowd Horror'' [''Horror''])
                         else if i = 11 then Inr (mkEntry 11 ''Crowd Comedy'' [''Comedy''])
                         else Inl (UpstreamError ''Request failed with status code 404'')),
      genreR = (\<lambda>m i. Inr [mkEntry 2 ''Base'' [''Action''],
                            mkEntry 20 ''Genre Horror'' [''Action'', ''Horror''],
                            mkEntry 21 ''Genre Drama'' [''Action'', ''Drama''],
                            mkEntry 22 ''Genre Sports'' [''Action'', ''Sports'']]),
      topR = (\<lambda>m n. Inr [mkEntry 30 ''Top One'' [''Drama''], mkEntry 31 ''Top Two'' [''Horror''],
                          mkEntry 32 ''Top Three'' [''Mystery''], mkEntry 33 ''Top Four'' [''Drama'']]),
      manhwaR = Inr [mkEntry 40 ''Manhwa One'' [''Fantasy'']],
      toNumberPositive = (\<lambda>v. Some False),
      toLowerCase = asciiLowerCase\<rparr>"

text \<open>The same catalogue where nothing matches a search.\<close>

definition emptyCatalogue :: env where
  "emptyCatalogue = catalogue\<lparr>searchR := (\<lambda>m t n. Inr [])\<rparr>"

section \<open>Properties of the request queue\<close>

lemma submissions_append [simp]: "submissions (xs @ ys) = submissions xs @ submissions ys"
  by (simp add: submissions_def)
lemma invocations_append [simp]: "invocations (xs @ ys) = invocations xs @ invocations ys"
  by (simp add: invocations_def)
lemma deliveries_append [simp]: "deliveries (xs @ ys) = deliveries xs @ deliveries ys"
  by (simp add: deliveries_def)

lemma obs_single [simp]:
  "submissions [x] = submissionOf x" "invocations [x] = invocationOf x" "deliveries [x] = deliveryOf x"
  "submissions [] = []" "invocations [] = []" "deliveries [] = []"
  by (simp_all add: submissions_def invocations_def deliveries_def)

lemma deliver_obs [simp]:
  "submissionOf (deliver h oc t) = []" "invocationOf (deliver h oc t) = []"
  "deliveryOf (deliver h oc t) = [(h, oc, t)]"
  by (cases oc; simp add: deliver_def)+

lemma queue_inv_init: "queue_inv init"
  by (simp add: queue_inv_def inv_order_def inv_guard_def inv_time_def inv_space_def inv_same_def init_def)

lemma upt_split_lt: "xs @ h # ys = [0..<n] \<Longrightarrow> x \<in> set xs \<Longrightarrow> x < h"
proof -
  assume a: "xs @ h # ys = [0..<n]" and b: "x \<in> set xs"
  have "sorted_wrt (<) (xs @ h # ys)" using a by simp
  then show ?thesis using b by (auto simp: sorted_wrt_append)
qed

lemma queue_inv_tick: "queue_inv s \<Longrightarrow> queue_inv (s\<lparr>clock := clock s + d\<rparr>)"
  by (fastforce simp add: queue_inv_def inv_order_def inv_guard_def inv_time_def inv_space_def inv_same_def)

lemma queue_inv_processQueue:
  assumes "inv_order s" "inv_same s" "inv_space s"
    and t: "\<forall>d \<in> set (deliveries (trace s)). snd (snd d) + RATE_LIMIT_DELAY \<le> clock s"
    and g: "awaiting s = []" "timers s = []"
  shows "queue_inv (processQueue s)"
proof (cases "queue s")
  case Nil
  then show ?thesis using assms
    by (auto simp add: processQueue_def queue_inv_def inv_order_def inv_guard_def inv_time_def inv_space_def inv_same_def)
next
  case (Cons j rest)
  have o: "inv_order (processQueue s)" using assms Cons
    by (auto simp add: processQueue_def inv_order_def)
  have gd: "inv_guard (processQueue s)" using assms Cons
    by (auto simp add: processQueue_def inv_guard_def)
  have tm: "inv_time (processQueue s)" using assms Cons
    by (auto simp add: processQueue_def inv_time_def)
  have sp: "inv_space (processQueue s)" using assms Cons
    by (auto simp add: processQueue_def inv_space_def)
  have sm: "inv_same (processQueue s)" using assms Cons
    by (auto simp add: processQueue_def inv_same_def)
  show ?thesis using o gd tm sp sm by (simp add: queue_inv_def)
qed

lemma queue_inv_enqueueRequest:
  assumes "queue_inv s"
  shows "queue_inv (enqueueRequest fn s)"
proof -
  define s1 where "s1 = s\<lparr>queue := queue s @ [\<lparr>requestFn = fn, handle = nextHandle s\<rparr>],
                 nextHandle := Suc (nextHandle s),
                 trace := trace s @ [Submitted (nextHandle s) fn (clock s)]\<rparr>"
  have e: "enqueueRequest fn s = (if \<not> isProcessing s then processQueue s1 else s1)"
    by (simp add: enqueueRequest_def s1_def Let_def)
  have o: "inv_order s1" using assms by (auto simp add: s1_def queue_inv_def inv_order_def)
  have sm: "inv_same s1" using assms by (fastforce simp add: s1_def queue_inv_def inv_same_def)
  have sp: "inv_space s1" using assms by (auto simp add: s1_def queue_inv_def inv_space_def)
  show ?thesis
  proof (cases "isProcessing s")
    case True
    have "inv_guard s1" using assms True by (auto simp add: s1_def queue_inv_def inv_guard_def)
    moreover have "inv_time s1" using assms True by (auto simp add: s1_def queue_inv_def inv_time_def)
    ultimately show ?thesis using e True o sm sp by (simp add: queue_inv_def)
  next
    case False
    have t: "\<forall>d \<in> set (deliveries (trace s1)). snd (snd d) + RATE_LIMIT_DELAY \<le> clock s1"
      using assms False by (auto simp add: s1_def queue_inv_def inv_time_def)
    have g: "awaiting s1 = []" "timers s1 = []"
      using assms False by (auto simp add: s1_def queue_inv_def inv_guard_def)
    show ?thesis using e False queue_inv_processQueue [OF o sm sp t g] by simp
  qed
qed

lemma guard_single:
  assumes "inv_guard s" "i < length (awaiting s)"
  shows "i = 0 \<and> (\<exists>a. awaiting s = [a]) \<and> timers s = [] \<and> isProcessing s"
proof -
  have "length (awaiting s) + length (timers s) \<le> 1" using assms(1) by (simp add: inv_guard_def split: if_splits)
  then have "length (awaiting s) = 1 \<and> length (timers s) = 0 \<and> i = 0" using assms(2) by arith
  moreover have "isProcessing s" using assms by (auto simp add: inv_guard_def split: if_splits)
  ultimately show ?thesis by (cases "awaiting s") auto
qed

lemma guard_timer:
  assumes "inv_guard s" "i < length (timers s)"
  shows "i = 0 \<and> (\<exists>d. timers s = [d]) \<and> awaiting s = [] \<and> isProcessing s"
proof -
  have "length (awaiting s) + length (timers s) \<le> 1" using assms(1) by (simp add: inv_guard_def split: if_splits)
  then have "length (timers s) = 1 \<and> length (awaiting s) = 0 \<and> i = 0" using assms(2) by arith
  moreover have "isProcessing s" using assms by (auto simp add: inv_guard_def split: if_splits)
  ultimately show ?thesis by (cases "timers s") auto
qed

lemma queue_inv_resume:
  assumes "queue_inv s" "i < length (awaiting s)"
  shows "queue_inv (resume i s)"
proof -
  have gd: "inv_guard s" using assms by (simp add: queue_inv_def)
  from guard_single [OF gd assms(2)] obtain h oc where
    a: "awaiting s = [(h, oc)]" and i: "i = 0" and tm: "timers s = []" and p: "isProcessing s"
    by (cases "hd (awaiting s)") auto
  have r: "resume i s = s\<lparr>awaiting := [], trace := trace s @ [deliver h oc (clock s)],
                         timers := [clock s + RATE_LIMIT_DELAY]\<rparr>"
    using a i tm by (simp add: resume_def removeAt_def)
  have o: "inv_order (resume i s)" using assms(1) a by (auto simp add: r queue_inv_def inv_order_def)
  have g: "inv_guard (resume i s)" using assms(1) a p by (auto simp add: r queue_inv_def inv_guard_def)
  have t: "inv_time (resume i s)" using assms(1) a p by (auto simp add: r queue_inv_def inv_time_def)
  have sm: "inv_same (resume i s)" using assms(1) a by (auto simp add: r queue_inv_def inv_same_def)
  have o1: "map fst (invocations (trace s)) @ map handle (queue s) = [0..<nextHandle s]"
    and o2: "map fst (deliveries (trace s)) @ [h] = map fst (invocations (trace s))"
    using assms(1) a by (auto simp add: queue_inv_def inv_order_def)
  have ord: "map fst (deliveries (trace s)) @ h # map handle (queue s) = [0..<nextHandle s]"
    using o1 unfolding o2 [symmetric] by simp
  have mx: "\<forall>x \<in> set (invocations (trace s)). fst x \<le> h"
  proof
    fix x assume "x \<in> set (invocations (trace s))"
    then have "fst x \<in> set (map fst (deliveries (trace s)) @ [h])"
      using assms(1) a by (auto simp add: queue_inv_def inv_order_def)
    then consider (old) "fst x \<in> set (map fst (deliveries (trace s)))" | (cur) "fst x = h"
      by auto
    then show "fst x \<le> h"
    proof cases
      case old
      from upt_split_lt [OF ord old] show ?thesis by simp
    next
      case cur
      then show ?thesis by simp
    qed
  qed
  have sp: "inv_space (resume i s)" using assms(1) mx
    by (fastforce simp add: r queue_inv_def inv_space_def)
  show ?thesis using o g t sm sp by (simp add: queue_inv_def)
qed

lemma queue_inv_fire:
  assumes "queue_inv s" "i < length (timers s)" "timers s ! i \<le> clock s"
  shows "queue_inv (processQueue (s\<lparr>timers := removeAt i (timers s)\<rparr>))"
proof -
  have gd: "inv_guard s" using assms by (simp add: queue_inv_def)
  from guard_timer [OF gd assms(2)] obtain d where
    tm: "timers s = [d]" and i: "i = 0" and a: "awaiting s = []" by auto
  let ?s = "s\<lparr>timers := removeAt i (timers s)\<rparr>"
  have o: "inv_order ?s" using assms by (simp add: queue_inv_def inv_order_def)
  have sm: "inv_same ?s" using assms by (simp add: queue_inv_def inv_same_def)
  have sp: "inv_space ?s" using assms by (simp add: queue_inv_def inv_space_def)
  have t: "\<forall>d \<in> set (deliveries (trace ?s)). snd (snd d) + RATE_LIMIT_DELAY \<le> clock ?s"
    using assms tm i by (fastforce simp add: queue_inv_def inv_time_def)
  have g: "awaiting ?s = []" "timers ?s = []" using a tm i by (simp_all add: removeAt_def)
  show ?thesis by (rule queue_inv_processQueue [OF o sm sp t g])
qed

lemma queue_inv_step: "queue_inv s \<Longrightarrow> step e s = Some s' \<Longrightarrow> queue_inv s'"
  by (cases e) (auto simp add: queue_inv_enqueueRequest queue_inv_resume queue_inv_fire queue_inv_tick split: if_splits)

lemma queue_inv_run: "queue_inv s \<Longrightarrow> run es s = Some s' \<Longrightarrow> queue_inv s'"
  by (induction es arbitrary: s) (auto split: option.splits dest: queue_inv_step)

lemma queue_inv_reachable: "run es init = Some s \<Longrightarrow> queue_inv s"
  using queue_inv_run [OF queue_inv_init] .

declare drainSchedule.simps [simp del]

lemma run_append: "run (xs @ ys) s = (case run xs s of None \<Rightarrow> None | Some s' \<Rightarrow> run ys s')"
  by (induction xs arbitrary: s) (auto split: option.splits)

lemma drain_quiescent:
  "\<exists>s'. run (drainSchedule s) s = Some s' \<and> awaiting s' = [] \<and> timers s' = []"
proof (induction s rule: drainSchedule.induct)
  case (1 s)
  show ?case
  proof (cases "awaiting s \<noteq> []")
    case True
    then have "0 < length (awaiting s)" by simp
    with True 1(1) show ?thesis
      by (subst drainSchedule.simps) simp
  next
    case False
    show ?thesis
    proof (cases "timers s")
      case Nil
      with False show ?thesis by (subst drainSchedule.simps) simp
    next
      case (Cons due rest)
      with False 1(2) show ?thesis
        by (subst drainSchedule.simps) simp
    qed
  qed
qed

lemma step_trace_grows: "step e s = Some s' \<Longrightarrow> \<exists>ext. trace s' = trace s @ ext"
  by (cases e)
     (auto simp add: enqueueRequest_def processQueue_def resume_def Let_def
           split: if_splits list.splits prod.splits)

lemma run_trace_grows: "run es s = Some s' \<Longrightarrow> \<exists>ext. trace s' = trace s @ ext"
proof (induction es arbitrary: s)
  case Nil
  then show ?case by simp
next
  case (Cons e es)
  then obtain s1 where a: "step e s = Some s1" and b: "run es s1 = Some s'"
    by (auto split: option.splits)
  from step_trace_grows [OF a] Cons.IH [OF b] show ?case by auto
qed

lemma filter_fst_le_one:
  "distinct (map fst xs) \<Longrightarrow> length (filter (\<lambda>d. fst d = h) xs) \<le> 1"
  by (induction xs) (auto simp add: filter_empty_conv image_iff)

lemma filter_fst_single:
  "distinct (map fst xs) \<Longrightarrow> d \<in> set xs \<Longrightarrow> filter (\<lambda>x. fst x = fst d) xs = [d]"
proof (induction xs)
  case Nil
  then show ?case by simp
next
  case (Cons x xs)
  show ?case
  proof (cases "x = d")
    case True
    have "filter (\<lambda>x. fst x = fst d) xs = []"
      using Cons.prems(1) True by (auto simp add: filter_empty_conv image_iff)
    with True show ?thesis by simp
  next
    case False
    with Cons.prems have d: "d \<in> set xs" by simp
    then have "fst x \<noteq> fst d" using Cons.prems(1) by (auto simp add: image_iff)
    with Cons.IH d Cons.prems(1) show ?thesis by simp
  qed
qed

lemma delivered_distinct:
  assumes "queue_inv s"
  shows "distinct (map fst (deliveries (trace s)))"
proof -
  have a: "map fst (invocations (trace s)) @ map handle (queue s) = [0..<nextHandle s]"
    and b: "map fst (deliveries (trace s)) @ map fst (awaiting s) = map fst (invocations (trace s))"
    using assms by (simp_all add: queue_inv_def inv_order_def)
  have "map fst (deliveries (trace s)) @ (map fst (awaiting s) @ map handle (queue s)) = [0..<nextHandle s]"
    using a unfolding b [symmetric] by simp
  then have "distinct (map fst (deliveries (trace s)) @ (map fst (awaiting s) @ map handle (queue s)))"
    by (simp only: distinct_upt)
  then show ?thesis by (simp only: distinct_append)
qed

lemma quiescent_all_delivered:
  assumes "queue_inv s" "awaiting s = []" "timers s = []"
  shows "map fst (deliveries (trace s)) = map fst (submissions (trace s))"
proof -
  have "\<not> isProcessing s" using assms by (auto simp add: queue_inv_def inv_guard_def split: if_splits)
  then have "queue s = []" using assms by (simp add: queue_inv_def inv_guard_def)
  then show ?thesis using assms by (simp add: queue_inv_def inv_order_def)
qed

lemma quiescent_all_invoked:
  assumes "queue_inv s" "awaiting s = []" "timers s = []"
  shows "map fst (invocations (trace s)) = map fst (submissions (trace s))"
proof -
  have "\<not> isProcessing s" using assms by (auto simp add: queue_inv_def inv_guard_def split: if_splits)
  then have "queue s = []" using assms by (simp add: queue_inv_def inv_guard_def)
  then show ?thesis using assms by (simp add: queue_inv_def inv_order_def)
qed

lemma submissions_functional:
  assumes "queue_inv s" "(h, f) \<in> set (submissions (trace s))" "(h, g) \<in> set (submissions (trace s))"
  shows "f = g"
proof -
  have "distinct (map fst (submissions (trace s)))"
    using assms(1) by (simp add: queue_inv_def inv_order_def)
  then show ?thesis using assms(2,3) by (meson eq_key_imp_eq_value)
qed

lemma markOf_deliver [simp]: "markOf (deliver h oc t) = (MDelivered, h, t)"
  by (cases oc) (simp_all add: deliver_def)

lemma schedule_processQueue:
  assumes "schedule s = schedule s'"
  shows "schedule (processQueue s) = schedule (processQueue s')"
proof (cases "queue s")
  case Nil
  then have "queue s' = []" using assms by (simp add: schedule_def)
  with Nil assms show ?thesis by (simp add: schedule_def processQueue_def)
next
  case (Cons j rest)
  then obtain j' rest' where c: "queue s' = j' # rest'" using assms
    by (cases "queue s'") (auto simp add: schedule_def)
  with Cons assms show ?thesis by (simp add: schedule_def processQueue_def)
qed

lemma schedule_enqueueRequest:
  assumes "schedule s = schedule s'"
  shows "schedule (enqueueRequest f s) = schedule (enqueueRequest g s')"
proof -
  let ?s1 = "s\<lparr>queue := queue s @ [\<lparr>requestFn = f, handle = nextHandle s\<rparr>],
                nextHandle := Suc (nextHandle s),
                trace := trace s @ [Submitted (nextHandle s) f (clock s)]\<rparr>"
  let ?s2 = "s'\<lparr>queue := queue s' @ [\<lparr>requestFn = g, handle = nextHandle s'\<rparr>],
                nextHandle := Suc (nextHandle s'),
                trace := trace s' @ [Submitted (nextHandle s') g (clock s')]\<rparr>"
  have e: "schedule ?s1 = schedule ?s2" using assms by (simp add: schedule_def)
  have p: "isProcessing s = isProcessing s'" using assms by (simp add: schedule_def)
  show ?thesis
  proof (cases "isProcessing s")
    case True
    with p e show ?thesis by (simp add: enqueueRequest_def Let_def)
  next
    case False
    with p schedule_processQueue [OF e] show ?thesis by (simp add: enqueueRequest_def Let_def)
  qed
qed

lemma map_removeAt: "map f (removeAt i xs) = removeAt i (map f xs)"
  by (simp add: removeAt_def take_map drop_map)

lemma schedule_resume:
  assumes "schedule s = schedule s'" "i < length (awaiting s)"
  shows "schedule (resume i s) = schedule (resume i s')"
proof -
  have m: "map fst (awaiting s) = map fst (awaiting s')" using assms by (simp add: schedule_def)
  then have l: "i < length (awaiting s')" using assms(2) by (metis length_map)
  have "fst (awaiting s ! i) = fst (awaiting s' ! i)"
    using m assms(2) l by (metis nth_map)
  moreover have "map fst (removeAt i (awaiting s)) = map fst (removeAt i (awaiting s'))"
    using m by (simp add: map_removeAt)
  ultimately show ?thesis using assms(1)
    by (auto simp add: schedule_def resume_def split: prod.splits)
qed

lemma schedule_step:
  assumes "schedule s = schedule s'" "sameShape e e'" "step e s = Some t"
  shows "\<exists>t'. step e' s' = Some t' \<and> schedule t' = schedule t"
proof (cases e)
  case (Submit f)
  then obtain g where "e' = Submit g" using assms(2) by (cases e') auto
  with Submit assms(3) schedule_enqueueRequest [OF assms(1), of f g] show ?thesis by simp
next
  case (Settle i)
  then have e': "e' = Settle i" using assms(2) by (cases e') auto
  have i: "i < length (awaiting s)" and t: "t = resume i s"
    using assms(3) Settle by (auto split: if_splits)
  have "map fst (awaiting s) = map fst (awaiting s')" using assms by (simp add: schedule_def)
  then have "i < length (awaiting s')" using i by (metis length_map)
  with e' t schedule_resume [OF assms(1) i] show ?thesis by simp
next
  case (Fire i)
  then have e': "e' = Fire i" using assms(2) by (cases e') auto
  have i: "i < length (timers s)" "timers s ! i \<le> clock s"
    and t: "t = processQueue (s\<lparr>timers := removeAt i (timers s)\<rparr>)"
    using assms(3) Fire by (auto split: if_splits)
  have eq: "timers s' = timers s" "clock s' = clock s" using assms(1) by (simp_all add: schedule_def)
  have "schedule (s\<lparr>timers := removeAt i (timers s)\<rparr>) = schedule (s'\<lparr>timers := removeAt i (timers s')\<rparr>)"
    using assms(1) by (simp add: schedule_def)
  from schedule_processQueue [OF this] e' t i eq show ?thesis by simp
next
  case (Tick d)
  then have e': "e' = Tick d" using assms(2) by (cases e') auto
  with Tick assms show ?thesis by (auto simp add: schedule_def)
qed

lemma schedule_run:
  "schedule s = schedule s' \<Longrightarrow> list_all2 sameShape es es' \<Longrightarrow> run es s = Some t \<Longrightarrow>
   \<exists>t'. run es' s' = Some t' \<and> schedule t' = schedule t"
proof (induction es arbitrary: es' s s')
  case Nil
  then show ?case by simp
next
  case (Cons e es)
  then obtain e' rest where es': "es' = e' # rest" and sh: "sameShape e e'"
    and all: "list_all2 sameShape es rest"
    by (auto simp add: list_all2_Cons1)
  from Cons.prems(3) obtain s1 where a: "step e s = Some s1" and b: "run es s1 = Some t"
    by (auto split: option.splits)
  from schedule_step [OF Cons.prems(1) sh a] obtain s1' where
    a': "step e' s' = Some s1'" and eq: "schedule s1' = schedule s1" by blast
  from Cons.IH [OF eq [symmetric] all b] a' es' show ?case by auto
qed

lemma schedule_init: "schedule (init :: ('e, 'a) qstate) = schedule (init :: ('f, 'b) qstate)"
  by (simp add: schedule_def init_def)

subsection \<open>A run of the model\<close>

text \<open>
  Two jobs are submitted at time 0; the first rejects after 30 ms, the timer fires at
  1030 ms and starts the second, which resolves 5 ms later.
\<close>

lemma example_run:
  "run [Submit (\<lambda>_. Rejected ''upstream 500''), Submit (\<lambda>_. Fulfilled ''ok''),
        Tick 30, Settle 0, Tick 1000, Fire 0, Tick 5, Settle 0] init =
   Some \<lparr>queue = [], isProcessing = True, awaiting = [], timers = [2035], clock = 1035,
         nextHandle = 2,
         trace = [Submitted 0 (\<lambda>_. Rejected ''upstream 500'') 0, Invoked 0 0,
                  Submitted (Suc 0) (\<lambda>_. Fulfilled ''ok'') 0, Reject 0 ''upstream 500'' 30,
                  Invoked (Suc 0) 1030, Resolve (Suc 0) ''ok'' 1035]\<rparr>"
  by (simp add: init_def enqueueRequest_def processQueue_def resume_def removeAt_def deliver_def Let_def
        submissions_def invocations_def deliveries_def RATE_LIMIT_DELAY_def)

text \<open>The timer callback cannot run one millisecond early.\<close>

lemma example_timer_not_early:
  "run [Submit (\<lambda>_. Rejected ''upstream 500''), Submit (\<lambda>_. Fulfilled ''ok''),
        Tick 30, Settle 0, Tick 999, Fire 0] init = None"
  by (simp add: init_def enqueueRequest_def processQueue_def resume_def removeAt_def deliver_def Let_def
        submissions_def invocations_def deliveries_def RATE_LIMIT_DELAY_def)

text \<open>
  A job rejects at 30 ms and a second job is submitted at 35 ms, while the timer is
  pending. Run to quiescence, the second job is invoked at 1030 ms.
\<close>

lemma example_job_after_failure:
  "\<exists>s. run [Submit (\<lambda>_. Rejected ''upstream 500''), Tick 30, Settle 0, Tick 5,
             Submit (\<lambda>_. Fulfilled ''ok'')] init = Some s \<and>
        drainSchedule s = [Tick 995, Fire 0, Settle 0, Tick 1000, Fire 0] \<and>
        (\<exists>s'. run (drainSchedule s) s = Some s' \<and>
           invocations (trace s') = [(0, 0), (1, 1030)] \<and>
           deliveries (trace s') = [(0, Rejected ''upstream 500'', 30), (1, Fulfilled ''ok'', 1030)])"
  by (simp add: init_def enqueueRequest_def processQueue_def resume_def removeAt_def deliver_def
      Let_def submissions_def invocations_def deliveries_def RATE_LIMIT_DELAY_def
      drainSchedule.simps)

subsection \<open>The claims about the queue\<close>

text \<open>
  C1. For every pair of consecutively executed jobs \<open>k\<close> and \<open>k+1\<close>, the work function
  of job \<open>k+1\<close> is invoked at least \<open>RATE_LIMIT_DELAY\<close> = 1000 ms after the outcome of
  job \<open>k\<close> was delivered to its completion handle. The theorem shows it for every
  later job \<open>k'\<close>, not only for the next one: in every reachable state, if handle \<open>k\<close>
  was settled at time \<open>t\<close> and the work function of a later handle \<open>k'\<close> was invoked at
  time \<open>t'\<close>, then \<open>t + 1000 \<le> t'\<close>.
\<close>

theorem spacing_after_delivery:
  assumes "run es init = Some s"
    and "(k, oc, t) \<in> set (deliveries (trace s))"
    and "(k', t') \<in> set (invocations (trace s))"
    and "k < k'"
  shows "t + 1000 \<le> t'"
proof -
  have "inv_space s" using queue_inv_reachable [OF assms(1)] by (simp add: queue_inv_def)
  then show ?thesis using assms(2-4) by (fastforce simp add: inv_space_def RATE_LIMIT_DELAY_def)
qed

theorem spacing_after_delivery_witness:
  "\<exists>s. run [Submit (\<lambda>_. Rejected ''upstream 500''), Submit (\<lambda>_. Fulfilled ''ok''),
             Tick 30, Settle 0, Tick 1000, Fire 0] init = Some s \<and>
        (0, Rejected ''upstream 500'', 30) \<in> set (deliveries (trace s)) \<and>
        (1, 1030) \<in> set (invocations (trace s)) \<and> (0::nat) < 1 \<and> (30::nat) + 1000 \<le> 1030"
proof -
  have "\<exists>s. run [Submit (\<lambda>_. Rejected ''upstream 500''), Submit (\<lambda>_. Fulfilled ''ok''),
             Tick 30, Settle 0, Tick 1000, Fire 0] init = Some s \<and>
        (0, Rejected ''upstream 500'', 30) \<in> set (deliveries (trace s)) \<and>
        (1, 1030) \<in> set (invocations (trace s))"
    by (simp add: init_def enqueueRequest_def processQueue_def resume_def removeAt_def deliver_def Let_def
        submissions_def invocations_def deliveries_def RATE_LIMIT_DELAY_def)
  then obtain s where r: "run [Submit (\<lambda>_. Rejected ''upstream 500''), Submit (\<lambda>_. Fulfilled ''ok''),
             Tick 30, Settle 0, Tick 1000, Fire 0] init = Some s"
    and d: "(0, Rejected ''upstream 500'', 30) \<in> set (deliveries (trace s))"
    and i: "(1, 1030) \<in> set (invocations (trace s))"
    by (elim exE conjE)
  have l: "(0::nat) < 1" by simp
  have c: "(30::nat) + 1000 \<le> 1030" by (rule spacing_after_delivery [OF r d i l])
  show ?thesis by (rule exI [of _ s]) (simp only: r d i l c simp_thms)
qed

text \<open>
  C2. The work functions are invoked in exactly the order of submission, and a submitted
  job leaves the pending sequence only by being invoked: in every reachable state the
  handles invoked so far, in the order of their invocation, followed by the handles still
  pending, in the order of the queue, are the handles submitted, in the order of
  submission.
\<close>

theorem fifo_order:
  assumes "run es init = Some s"
  shows "map fst (invocations (trace s)) @ map handle (queue s) = map fst (submissions (trace s))"
  using queue_inv_reachable [OF assms] by (simp add: queue_inv_def inv_order_def)

theorem fifo_order_witness:
  "\<exists>s. run [Submit (\<lambda>_. Fulfilled (1::nat)), Submit (\<lambda>_. Rejected ''e''),
             Submit (\<lambda>_. Fulfilled 3), Settle 0, Tick 1000, Fire 0] init = Some s \<and>
        map fst (invocations (trace s)) = [0, 1] \<and> map handle (queue s) = [2] \<and>
        map fst (invocations (trace s)) @ map handle (queue s) = map fst (submissions (trace s))"
proof -
  have "\<exists>s. run [Submit (\<lambda>_. Fulfilled (1::nat)), Submit (\<lambda>_. Rejected ''e''),
             Submit (\<lambda>_. Fulfilled 3), Settle 0, Tick 1000, Fire 0] init = Some s \<and>
        map fst (invocations (trace s)) = [0, 1] \<and> map handle (queue s) = [2]"
    by (simp add: init_def enqueueRequest_def processQueue_def resume_def removeAt_def deliver_def Let_def
        submissions_def invocations_def deliveries_def RATE_LIMIT_DELAY_def)
  then obtain s where r: "run [Submit (\<lambda>_. Fulfilled (1::nat)), Submit (\<lambda>_. Rejected ''e''),
             Submit (\<lambda>_. Fulfilled 3), Settle 0, Tick 1000, Fire 0] init = Some s"
    and v: "map fst (invocations (trace s)) = [0, 1]" and q: "map handle (queue s) = [2]"
    by (elim exE conjE)
  have c: "map fst (invocations (trace s)) @ map handle (queue s) = map fst (submissions (trace s))"
    by (rule fifo_order [OF r])
  show ?thesis by (rule exI [of _ s]) (simp only: r v q c [symmetric] simp_thms)
qed

text \<open>
  C3. At every instant at most one work function is executing: in every reachable state
  at most one activation of \<open>processQueue\<close> is suspended at its \<open>await\<close>, and the handles
  invoked and not yet settled are exactly the handles of those activations.
\<close>

theorem at_most_one_executing:
  assumes "run es init = Some s"
  shows "length (awaiting s) \<le> 1 \<and>
         map fst (invocations (trace s)) = map fst (deliveries (trace s)) @ map fst (awaiting s)"
  using queue_inv_reachable [OF assms]
  by (simp add: queue_inv_def inv_order_def inv_guard_def split: if_splits)

theorem at_most_one_executing_witness:
  "\<exists>s. run [Submit (\<lambda>_. Fulfilled (1::nat)), Submit (\<lambda>_. Rejected ''e''),
             Submit (\<lambda>_. Fulfilled 3)] init = Some s \<and>
        map fst (awaiting s) = [0] \<and> length (queue s) = 2 \<and>
        (length (awaiting s) \<le> 1 \<and>
         map fst (invocations (trace s)) = map fst (deliveries (trace s)) @ map fst (awaiting s))"
proof -
  have "\<exists>s. run [Submit (\<lambda>_. Fulfilled (1::nat)), Submit (\<lambda>_. Rejected ''e''),
             Submit (\<lambda>_. Fulfilled 3)] init = Some s \<and>
        map fst (awaiting s) = [0] \<and> length (queue s) = 2"
    by (simp add: init_def enqueueRequest_def processQueue_def resume_def removeAt_def deliver_def Let_def
        submissions_def invocations_def deliveries_def)
  then obtain s where r: "run [Submit (\<lambda>_. Fulfilled (1::nat)), Submit (\<lambda>_. Rejected ''e''),
             Submit (\<lambda>_. Fulfilled 3)] init = Some s"
    and v: "map fst (awaiting s) = [0]" and q: "length (queue s) = 2"
    by (elim exE conjE)
  have c: "length (awaiting s) \<le> 1 \<and>
         map fst (invocations (trace s)) = map fst (deliveries (trace s)) @ map fst (awaiting s)"
    by (rule at_most_one_executing [OF r])
  show ?thesis by (rule exI [of _ s]) (simp only: r v q c simp_thms)
qed

text \<open>
  C4. Every submitted job is settled exactly once. In every reachable state no handle has
  been settled more than once; and from every reachable state, once the pending work
  functions settle and the timers fire, the loop comes to rest in a state where every
  submitted handle has been settled exactly once, with the outcome of its own work
  function (\<open>resolve\<close> for a result, \<open>reject\<close> for a failure).
\<close>

theorem every_job_settled_exactly_once:
  assumes "run es init = Some s"
  shows "(\<forall>h. settledCount (trace s) h \<le> 1) \<and>
         (\<exists>s'. run (drainSchedule s) s = Some s' \<and>
            (\<forall>(h, fn) \<in> set (submissions (trace s)).
               \<exists>t. filter (\<lambda>d. fst d = h) (deliveries (trace s')) = [(h, fn (), t)]))"
proof
  have i: "queue_inv s" using assms by (rule queue_inv_reachable)
  show "\<forall>h. settledCount (trace s) h \<le> 1"
    using filter_fst_le_one [OF delivered_distinct [OF i]] by (simp add: settledCount_def)
  obtain s' where r: "run (drainSchedule s) s = Some s'" and q: "awaiting s' = []" "timers s' = []"
    using drain_quiescent [of s] by blast
  have "run (es @ drainSchedule s) init = Some s'" using assms r by (simp add: run_append)
  then have i': "queue_inv s'" by (rule queue_inv_reachable)
  obtain ext where ext: "trace s' = trace s @ ext" using run_trace_grows [OF r] by blast
  have all: "map fst (deliveries (trace s')) = map fst (submissions (trace s'))"
    using quiescent_all_delivered [OF i' q] .
  have "\<exists>t. filter (\<lambda>d. fst d = h) (deliveries (trace s')) = [(h, fn (), t)]"
    if sub: "(h, fn) \<in> set (submissions (trace s))" for h fn
  proof -
    have sub': "(h, fn) \<in> set (submissions (trace s'))" using sub ext by simp
    then have "h \<in> set (map fst (deliveries (trace s')))" unfolding all by force
    then obtain oc t where d: "(h, oc, t) \<in> set (deliveries (trace s'))" by auto
    then obtain g where g: "(h, g) \<in> set (submissions (trace s'))" "g () = oc"
      using i' by (fastforce simp add: queue_inv_def inv_same_def)
    have "g = fn" using submissions_functional [OF i' g(1) sub'] .
    then have "oc = fn ()" using g(2) by simp
    moreover have "filter (\<lambda>x. fst x = fst (h, oc, t)) (deliveries (trace s')) = [(h, oc, t)]"
      using filter_fst_single [OF delivered_distinct [OF i'] d] .
    ultimately show ?thesis by auto
  qed
  then show "\<exists>s'. run (drainSchedule s) s = Some s' \<and>
            (\<forall>(h, fn) \<in> set (submissions (trace s)).
               \<exists>t. filter (\<lambda>d. fst d = h) (deliveries (trace s')) = [(h, fn (), t)])"
    using r by auto
qed

theorem every_job_settled_exactly_once_witness:
  "\<exists>s. run [Submit (\<lambda>_. Rejected ''upstream 500''), Submit (\<lambda>_. Fulfilled ''ok'')] init = Some s \<and>
        map fst (submissions (trace s)) = [0, 1] \<and>
        ((\<forall>h. settledCount (trace s) h \<le> 1) \<and>
         (\<exists>s'. run (drainSchedule s) s = Some s' \<and>
            (\<forall>(h, fn) \<in> set (submissions (trace s)).
               \<exists>t. filter (\<lambda>d. fst d = h) (deliveries (trace s')) = [(h, fn (), t)])))"
proof -
  have "\<exists>s. run [Submit (\<lambda>_. Rejected ''upstream 500''), Submit (\<lambda>_. Fulfilled ''ok'')] init = Some s \<and>
        map fst (submissions (trace s)) = [0, 1]"
    by (simp add: init_def enqueueRequest_def processQueue_def resume_def removeAt_def deliver_def Let_def
        submissions_def invocations_def deliveries_def)
  then obtain s where
    r: "run [Submit (\<lambda>_. Rejected ''upstream 500''), Submit (\<lambda>_. Fulfilled ''ok'')] init = Some s"
    and v: "map fst (submissions (trace s)) = [0, 1]"
    by (elim exE conjE)
  have c: "(\<forall>h. settledCount (trace s) h \<le> 1) \<and>
         (\<exists>s'. run (drainSchedule s) s = Some s' \<and>
            (\<forall>(h, fn) \<in> set (submissions (trace s)).
               \<exists>t. filter (\<lambda>d. fst d = h) (deliveries (trace s')) = [(h, fn (), t)]))"
    by (rule every_job_settled_exactly_once [OF r])
  show ?thesis by (rule exI [of _ s]) (simp only: r v c simp_thms)
qed

text \<open>
  C5. A failure of a work function is surfaced to its own caller and does not disturb the
  loop. In every reachable state each delivery carries the outcome of the work function
  submitted under that handle, so a rejected handle was rejected with the error of its
  own work function. The loop goes on after a delivery, whatever the outcome was: from
  every reachable state, once the pending work functions settle and the timers fire,
  every job submitted under a later handle than a settled one has been invoked, and
  not before 1000 ms after that delivery. And the loop does not look at outcomes: a run
  with the same events whose work functions have any other outcomes exists as well and
  has the same schedule, that is the same pending handles, flag, executing handle,
  timers and clock, and the same submissions, invocations and deliveries at the same
  times.
\<close>

theorem failure_is_surfaced_and_isolated:
  assumes "run es init = Some s"
  shows "(\<forall>(h, oc, t) \<in> set (deliveries (trace s)).
            \<exists>fn. (h, fn) \<in> set (submissions (trace s)) \<and> fn () = oc) \<and>
         (\<exists>s'. run (drainSchedule s) s = Some s' \<and>
            (\<forall>h oc t k fn.
               (h, oc, t) \<in> set (deliveries (trace s)) \<and>
               (k, fn) \<in> set (submissions (trace s)) \<and> h < k \<longrightarrow>
               (\<exists>t'. (k, t') \<in> set (invocations (trace s')) \<and> t + 1000 \<le> t'))) \<and>
         (\<forall>es'. list_all2 sameShape es es' \<longrightarrow>
            (\<exists>s'. run es' (init :: ('f, 'b) qstate) = Some s' \<and> schedule s' = schedule s))"
proof (intro conjI)
  have "inv_same s" using queue_inv_reachable [OF assms] by (simp add: queue_inv_def)
  then show "\<forall>(h, oc, t) \<in> set (deliveries (trace s)).
            \<exists>fn. (h, fn) \<in> set (submissions (trace s)) \<and> fn () = oc"
    by (fastforce simp add: inv_same_def)
next
  obtain s' where r: "run (drainSchedule s) s = Some s'" and q: "awaiting s' = []" "timers s' = []"
    using drain_quiescent [of s] by blast
  have "run (es @ drainSchedule s) init = Some s'" using assms r by (simp add: run_append)
  then have i': "queue_inv s'" by (rule queue_inv_reachable)
  obtain ext where ext: "trace s' = trace s @ ext" using run_trace_grows [OF r] by blast
  have all: "map fst (invocations (trace s')) = map fst (submissions (trace s'))"
    using quiescent_all_invoked [OF i' q] .
  have sp: "inv_space s'" using i' by (simp add: queue_inv_def)
  have "\<exists>t'. (k, t') \<in> set (invocations (trace s')) \<and> t + 1000 \<le> t'"
    if d: "(h, oc, t) \<in> set (deliveries (trace s))"
      and sub: "(k, fn) \<in> set (submissions (trace s))" and lt: "h < k" for h oc t k fn
  proof -
    have "(k, fn) \<in> set (submissions (trace s'))" using sub ext by simp
    then have "k \<in> set (map fst (invocations (trace s')))" unfolding all by force
    then obtain t' where i: "(k, t') \<in> set (invocations (trace s'))" by auto
    have d': "(h, oc, t) \<in> set (deliveries (trace s'))" using d ext by simp
    have "t + 1000 \<le> t'"
      using sp d' i lt by (fastforce simp add: inv_space_def RATE_LIMIT_DELAY_def)
    with i show ?thesis by blast
  qed
  then show "\<exists>s'. run (drainSchedule s) s = Some s' \<and>
            (\<forall>h oc t k fn.
               (h, oc, t) \<in> set (deliveries (trace s)) \<and>
               (k, fn) \<in> set (submissions (trace s)) \<and> h < k \<longrightarrow>
               (\<exists>t'. (k, t') \<in> set (invocations (trace s')) \<and> t + 1000 \<le> t'))"
    using r by blast
next
  show "\<forall>es'. list_all2 sameShape es es' \<longrightarrow>
            (\<exists>s'. run es' (init :: ('f, 'b) qstate) = Some s' \<and> schedule s' = schedule s)"
    using schedule_run [OF schedule_init _ assms] by blast
qed

theorem failure_is_surfaced_and_isolated_witness:
  "\<exists>s. run [Submit (\<lambda>_. Rejected ''upstream 500''), Tick 30, Settle 0, Tick 5,
             Submit (\<lambda>_. Fulfilled ''ok'')] init = Some s \<and>
        (0, Rejected ''upstream 500'', 30) \<in> set (deliveries (trace s)) \<and>
        (1, \<lambda>_. Fulfilled ''ok'') \<in> set (submissions (trace s)) \<and>
        invocations (trace s) = [(0, 0)] \<and> (0::nat) < 1 \<and>
        list_all2 sameShape
          [Submit (\<lambda>_. Rejected ''upstream 500''), Tick 30, Settle 0, Tick 5,
           Submit (\<lambda>_. Fulfilled ''ok'')]
          [Submit (\<lambda>_. Fulfilled True), Tick 30, Settle 0, Tick 5,
           Submit (\<lambda>_. Fulfilled False) :: (unit, bool) event] \<and>
        (\<exists>fn. (0, fn) \<in> set (submissions (trace s)) \<and> fn () = Rejected ''upstream 500'') \<and>
        (\<exists>s'. run (drainSchedule s) s = Some s' \<and>
           (\<exists>t'. (1, t') \<in> set (invocations (trace s')) \<and> 30 + 1000 \<le> t')) \<and>
        (\<exists>s'. run [Submit (\<lambda>_. Fulfilled True), Tick 30, Settle 0, Tick 5,
                    Submit (\<lambda>_. Fulfilled False)] (init :: (unit, bool) qstate) = Some s' \<and>
               schedule s' = schedule s)"
proof -
  have "\<exists>s. run [Submit (\<lambda>_. Rejected ''upstream 500''), Tick 30, Settle 0, Tick 5,
             Submit (\<lambda>_. Fulfilled ''ok'')] init = Some s \<and>
        (0, Rejected ''upstream 500'', 30) \<in> set (deliveries (trace s)) \<and>
        (1, \<lambda>_. Fulfilled ''ok'') \<in> set (submissions (trace s)) \<and>
        invocations (trace s) = [(0, 0)]"
    by (simp add: init_def enqueueRequest_def processQueue_def resume_def removeAt_def deliver_def Let_def
        submissions_def invocations_def deliveries_def RATE_LIMIT_DELAY_def)
  then obtain s where
    r: "run [Submit (\<lambda>_. Rejected ''upstream 500''), Tick 30, Settle 0, Tick 5,
             Submit (\<lambda>_. Fulfilled ''ok'')] init = Some s"
    and d: "(0, Rejected ''upstream 500'', 30) \<in> set (deliveries (trace s))"
    and u: "(1, \<lambda>_. Fulfilled ''ok'') \<in> set (submissions (trace s))"
    and i: "invocations (trace s) = [(0, 0)]"
    by (elim exE conjE)
  have l: "(0::nat) < 1" by simp
  have sh: "list_all2 sameShape
          [Submit (\<lambda>_. Rejected ''upstream 500''), Tick 30, Settle 0, Tick 5,
           Submit (\<lambda>_. Fulfilled ''ok'')]
          [Submit (\<lambda>_. Fulfilled True), Tick 30, Settle 0, Tick 5,
           Submit (\<lambda>_. Fulfilled False) :: (unit, bool) event]"
    by simp
  note c = failure_is_surfaced_and_isolated [OF r, where ?'f = unit and ?'b = bool]
  have c1: "\<exists>fn. (0, fn) \<in> set (submissions (trace s)) \<and> fn () = Rejected ''upstream 500''"
    using c [THEN conjunct1, rule_format, OF d] by simp
  from c [THEN conjunct2, THEN conjunct1] obtain s' where
    dr: "run (drainSchedule s) s = Some s'"
    and al: "\<forall>h oc t k fn.
               (h, oc, t) \<in> set (deliveries (trace s)) \<and>
               (k, fn) \<in> set (submissions (trace s)) \<and> h < k \<longrightarrow>
               (\<exists>t'. (k, t') \<in> set (invocations (trace s')) \<and> t + 1000 \<le> t')"
    by (elim exE conjE)
  have c2': "\<exists>t'. (1, t') \<in> set (invocations (trace s')) \<and> 30 + 1000 \<le> t'"
    by (rule al [rule_format, OF conjI [OF d conjI [OF u l]]])
  have c2: "\<exists>s'. run (drainSchedule s) s = Some s' \<and>
           (\<exists>t'. (1, t') \<in> set (invocations (trace s')) \<and> 30 + 1000 \<le> t')"
    by (rule exI [of _ s'], rule conjI) (rule dr c2')+
  have c3: "\<exists>s'. run [Submit (\<lambda>_. Fulfilled True), Tick 30, Settle 0, Tick 5,
                    Submit (\<lambda>_. Fulfilled False)] (init :: (unit, bool) qstate) = Some s' \<and>
               schedule s' = schedule s"
    by (rule c [THEN conjunct2, THEN conjunct2, rule_format, OF sh])
  show ?thesis by (rule exI [of _ s]) (simp only: r d u i l sh c1 c2 c3 simp_thms)
qed

text \<open>
  C6. Every call of \<open>enqueueRequest\<close> appends the job to the tail of the pending sequence
  and starts a drain loop if and only if none is active. In every reachable state the flag
  \<open>isProcessing\<close> is set exactly when a loop is active, that is when an activation of
  \<open>processQueue\<close> is suspended or its timer is pending. If it is set, the call only puts the
  job at the end of the queue. If it is not set, nothing is pending, and the call starts
  the loop: the job is invoked at once, so a submission to an idle queue is not lost.
\<close>

theorem submission_appends_and_restarts:
  assumes "run es init = Some s"
  shows "(isProcessing s \<longleftrightarrow> awaiting s \<noteq> [] \<or> timers s \<noteq> []) \<and>
         (if isProcessing s
          then enqueueRequest fn s =
               s\<lparr>queue := queue s @ [\<lparr>requestFn = fn, handle = nextHandle s\<rparr>],
                 nextHandle := Suc (nextHandle s),
                 trace := trace s @ [Submitted (nextHandle s) fn (clock s)]\<rparr>
          else queue s = [] \<and>
               enqueueRequest fn s =
               s\<lparr>isProcessing := True,
                 awaiting := [(nextHandle s, fn ())],
                 nextHandle := Suc (nextHandle s),
                 trace := trace s @ [Submitted (nextHandle s) fn (clock s),
                                     Invoked (nextHandle s) (clock s)]\<rparr>)"
proof -
  have g: "inv_guard s" using queue_inv_reachable [OF assms] by (simp add: queue_inv_def)
  have 1: "isProcessing s \<longleftrightarrow> awaiting s \<noteq> [] \<or> timers s \<noteq> []"
    using g by (auto simp add: inv_guard_def split: if_splits)
  show ?thesis
  proof (cases "isProcessing s")
    case True
    with 1 show ?thesis by (simp add: enqueueRequest_def Let_def)
  next
    case False
    with g 1 show ?thesis
      by (auto simp add: inv_guard_def enqueueRequest_def processQueue_def Let_def)
  qed
qed

theorem submission_appends_and_restarts_witness:
  "\<exists>s1 s2.
     run [Submit (\<lambda>_. Fulfilled ''a''), Tick 10] (init :: (string, string) qstate) = Some s1 \<and>
     isProcessing s1 \<and>
     queue (enqueueRequest (\<lambda>_. Rejected ''b'') s1) =
       queue s1 @ [\<lparr>requestFn = (\<lambda>_. Rejected ''b''), handle = 1\<rparr>] \<and>
     awaiting (enqueueRequest (\<lambda>_. Rejected ''b'') s1) = awaiting s1 \<and>
     run [Submit (\<lambda>_. Fulfilled ''a''), Tick 10, Settle 0, Tick 1000, Fire 0]
       (init :: (string, string) qstate) = Some s2 \<and>
     \<not> isProcessing s2 \<and> queue s2 = [] \<and>
     awaiting (enqueueRequest (\<lambda>_. Rejected ''b'') s2) = [(1, Rejected ''b'')] \<and>
     invocations (trace (enqueueRequest (\<lambda>_. Rejected ''b'') s2)) = [(0, 0), (1, 1010)]"
proof -
  have "\<exists>s1. run [Submit (\<lambda>_. Fulfilled ''a''), Tick 10] (init :: (string, string) qstate) = Some s1 \<and>
          isProcessing s1 \<and> nextHandle s1 = 1"
    by (simp add: init_def enqueueRequest_def processQueue_def resume_def removeAt_def deliver_def Let_def
        submissions_def invocations_def deliveries_def)
  then obtain s1 where
    r1: "run [Submit (\<lambda>_. Fulfilled ''a''), Tick 10] (init :: (string, string) qstate) = Some s1"
    and p1: "isProcessing s1" and n1: "nextHandle s1 = 1"
    by (elim exE conjE)
  have "\<exists>s2. run [Submit (\<lambda>_. Fulfilled ''a''), Tick 10, Settle 0, Tick 1000, Fire 0]
            (init :: (string, string) qstate) = Some s2 \<and>
          \<not> isProcessing s2 \<and> nextHandle s2 = 1 \<and> clock s2 = 1010 \<and>
          invocations (trace s2) = [(0, 0)]"
    by (simp add: init_def enqueueRequest_def processQueue_def resume_def removeAt_def deliver_def Let_def
        submissions_def invocations_def deliveries_def RATE_LIMIT_DELAY_def)
  then obtain s2 where
    r2: "run [Submit (\<lambda>_. Fulfilled ''a''), Tick 10, Settle 0, Tick 1000, Fire 0]
            (init :: (string, string) qstate) = Some s2"
    and p2: "\<not> isProcessing s2" and n2: "nextHandle s2 = 1" and k2: "clock s2 = 1010"
    and i2: "invocations (trace s2) = [(0, 0)]"
    by (elim exE conjE)
  note c1 = submission_appends_and_restarts [OF r1, of "\<lambda>_. Rejected ''b''"]
  note c2 = submission_appends_and_restarts [OF r2, of "\<lambda>_. Rejected ''b''"]
  have e1: "enqueueRequest (\<lambda>_. Rejected ''b'') s1 =
              s1\<lparr>queue := queue s1 @ [\<lparr>requestFn = (\<lambda>_. Rejected ''b''), handle = nextHandle s1\<rparr>],
                 nextHandle := Suc (nextHandle s1),
                 trace := trace s1 @ [Submitted (nextHandle s1) (\<lambda>_. Rejected ''b'') (clock s1)]\<rparr>"
    using c1 p1 by (simp only: simp_thms if_True)
  have e2: "queue s2 = [] \<and>
            enqueueRequest (\<lambda>_. Rejected ''b'') s2 =
              s2\<lparr>isProcessing := True,
                 awaiting := [(nextHandle s2, Rejected ''b'')],
                 nextHandle := Suc (nextHandle s2),
                 trace := trace s2 @ [Submitted (nextHandle s2) (\<lambda>_. Rejected ''b'') (clock s2),
                                      Invoked (nextHandle s2) (clock s2)]\<rparr>"
    using c2 p2 by (simp only: simp_thms if_False)
  have a1: "queue (enqueueRequest (\<lambda>_. Rejected ''b'') s1) =
       queue s1 @ [\<lparr>requestFn = (\<lambda>_. Rejected ''b''), handle = 1\<rparr>]"
    and a2: "awaiting (enqueueRequest (\<lambda>_. Rejected ''b'') s1) = awaiting s1"
    by (simp_all add: e1 n1)
  have b1: "queue s2 = []" using e2 by simp
  have b2: "awaiting (enqueueRequest (\<lambda>_. Rejected ''b'') s2) = [(1, Rejected ''b'')]"
    by (simp add: e2 [THEN conjunct2] n2)
  have b3: "invocations (trace (enqueueRequest (\<lambda>_. Rejected ''b'') s2)) = [(0, 0), (1, 1010)]"
    using i2 by (simp add: e2 [THEN conjunct2] n2 k2 invocations_def)
  show ?thesis by (rule exI [of _ s1], rule exI [of _ s2]) (simp only: r1 p1 a1 a2 r2 p2 b1 b2 b3 simp_thms)
qed

section \<open>Properties of the recommendation endpoint\<close>

lemmas act_defs = ret_def throw_def andThen_def catch_def lift_def submit_def bindE_def

lemmas eval_defs =
  getMangaRecommendations_def getAnimeRecommendations_def getManhwaRecommendations_def
  assemble_def fromBase_def fromManhwa_def findBase_def findManhwa_def crowdTier_def crowdOne_def
  crowdRec_def fallbackRec_def manhwaRec_def manhwaTier_def manhwaTop_def genreTier_def topTier_def
  found_def notFound_def searchJob_def nthTitle_def passesGenres_def passesExclude_def
  filterGiven_def genreNames_def genreNamesLower_def matchesSome_def asciiLowerCase_def lowerChar_def
  surrogateSeconds_def
  orElse_def isManhwa_def recommend_def logLine_def dispatch_def mediaTypeOf_def
  catalogue_def emptyCatalogue_def mkEntry_def List.map_filter_def

declare assembled.simps [simp del]

lemma andThen_Inr:
  assumes "andThen m f = (l, Inr r)"
  obtains l1 v l2 where "m = (l1, Inr v)" "f v = (l2, Inr r)" "l = l1 @ l2"
  using assms by (auto simp add: andThen_def split: prod.splits sum.splits)

lemma ret_Inr: "ret v = (l, Inr r) \<longleftrightarrow> l = [] \<and> r = v"
  by (auto simp add: ret_def)

lemma assembled_found: "assembled (found recs t k)"
  by (simp add: assembled.simps found_def)

lemma assembled_notFound: "assembled (notFound what ts)"
  by (simp add: assembled.simps notFound_def)

lemma fromBase_assembled:
  assumes "fromBase w m ts g x base = (l, Inr r)"
  shows "assembled r"
proof -
  from assms obtain r3 where "r = found r3 (title base) (label m)"
    unfolding fromBase_def by (elim andThen_Inr) (simp add: ret_Inr)
  then show ?thesis by (simp add: assembled_found)
qed

lemma findBase_Inl:
  assumes "findBase w m ts = (l, Inr (Inl resp))"
  shows "assembled resp"
  using assms unfolding findBase_def
  by (elim andThen_Inr)
     (auto simp add: ret_Inr assembled_notFound split: list.splits if_splits elim!: andThen_Inr)

lemma assemble_assembled:
  assumes "assemble w m ts g x = (l, Inr r)"
  shows "assembled r"
proof -
  from assms obtain l1 b l2 where f: "findBase w m ts = (l1, Inr b)"
    and c: "(case b of Inl resp \<Rightarrow> ret resp | Inr base \<Rightarrow> fromBase w m ts g x base) = (l2, Inr r)"
    unfolding assemble_def by (elim andThen_Inr)
  show ?thesis
  proof (cases b)
    case (Inl resp)
    with c have "r = resp" by (simp add: ret_Inr)
    with findBase_Inl [of w m ts l1 resp] f Inl show ?thesis by simp
  next
    case (Inr base)
    with c fromBase_assembled [of w m ts g x base l2 r] show ?thesis by simp
  qed
qed

lemma fromManhwa_assembled:
  assumes "fromManhwa w g x manhwa sim = (l, Inr r)"
  shows "assembled r"
proof -
  from assms obtain r2 where "r = found r2 (title manhwa) ''manhwa''"
    unfolding fromManhwa_def by (elim andThen_Inr) (simp add: ret_Inr)
  then show ?thesis by (simp add: assembled_found)
qed

lemma findManhwa_Inl:
  assumes "findManhwa w ts = (l, Inr (Inl resp))"
  shows "assembled resp"
  using assms unfolding findManhwa_def
  by (elim andThen_Inr)
     (auto simp add: ret_Inr assembled_notFound split: list.splits if_splits elim!: andThen_Inr)

lemma manhwa_assembled:
  assumes "getManhwaRecommendations w ts g x = (l, Inr r)"
  shows "assembled r"
proof -
  from assms obtain l1 b l2 where f: "findManhwa w ts = (l1, Inr b)"
    and c: "(case b of Inl resp \<Rightarrow> ret resp | Inr (manhwa, sim) \<Rightarrow> fromManhwa w g x manhwa sim) = (l2, Inr r)"
    unfolding getManhwaRecommendations_def by (elim andThen_Inr)
  show ?thesis
  proof (cases b)
    case (Inl resp)
    with c have "r = resp" by (simp add: ret_Inr)
    with findManhwa_Inl [of w ts l1 resp] f Inl show ?thesis by simp
  next
    case (Inr p)
    then obtain manhwa sim where "b = Inr (manhwa, sim)" by (cases p) auto
    with c fromManhwa_assembled [of w g x manhwa sim l2 r] show ?thesis by simp
  qed
qed

lemma manga_assembled: "getMangaRecommendations w ts g x = (l, Inr r) \<Longrightarrow> assembled r"
  unfolding getMangaRecommendations_def by (rule assemble_assembled)

lemma anime_assembled: "getAnimeRecommendations w ts g x = (l, Inr r) \<Longrightarrow> assembled r"
  unfolding getAnimeRecommendations_def by (rule assemble_assembled)

lemma dispatch_assembled:
  assumes "dispatch w b ts = (l, Inr r)"
  shows "assembled r"
proof -
  consider "getAnimeRecommendations w ts (req_genres b) (req_exclude b) = (l, Inr r)"
    | "getManhwaRecommendations w ts (req_genres b) (req_exclude b) = (l, Inr r)"
    | "getMangaRecommendations w ts (req_genres b) (req_exclude b) = (l, Inr r)"
    using assms by (auto simp add: dispatch_def split: if_splits)
  then show ?thesis
    by cases (erule anime_assembled manhwa_assembled manga_assembled)+
qed

lemma assembled_cases:
  assumes "assembled r"
  shows "(status r = 200 \<and> (\<exists>recs t k. body r = Result recs t k \<and> length recs \<le> 5)) \<or>
         (status r = 404 \<and> (\<exists>what ts'. body r = ErrorBody (CouldNotFind what ts')))"
  using assms by (auto simp add: assembled.simps split: payload.splits message.splits)

lemma notFound_ex [simp]: "\<exists>what ts'. notFound a b = notFound what ts'"
  by blast

lemma findBase_no_match:
  assumes "ts \<noteq> []" "\<forall>t \<in> set ts. \<not> toStringThrows t"
    and "\<forall>t \<in> set (take 2 ts). \<not> uriComponentThrows t \<and> (\<forall>m n. searchR w m (Some t) n = Inr [])"
  shows "\<exists>what ts'. findBase w m ts =
           (map (\<lambda>t. Search m (Some t) 1) (take 2 ts), Inr (Inl (notFound what ts')))"
proof (cases ts)
  case Nil
  with assms(1) show ?thesis by simp
next
  case (Cons a rest)
  show ?thesis
  proof (cases rest)
    case Nil
    with Cons assms(2,3) show ?thesis
      by (simp add: findBase_def searchJob_def nthTitle_def submit_def andThen_def ret_def)
  next
    case (Cons c rest')
    with \<open>ts = a # rest\<close> assms(2,3) show ?thesis
      by (simp add: findBase_def searchJob_def nthTitle_def submit_def andThen_def ret_def)
  qed
qed

lemma findManhwa_no_match:
  assumes "ts \<noteq> []" "\<forall>t \<in> set ts. \<not> toStringThrows t"
    and "\<forall>t \<in> set (take 2 ts). \<not> uriComponentThrows t \<and> (\<forall>m n. searchR w m (Some t) n = Inr [])"
  shows "\<exists>what ts'. findManhwa w ts =
           (map (\<lambda>t. Search Manga (Some t) 5) (take 2 ts), Inr (Inl (notFound what ts')))"
proof (cases ts)
  case Nil
  with assms(1) show ?thesis by simp
next
  case (Cons a rest)
  show ?thesis
  proof (cases rest)
    case Nil
    with Cons assms(2,3) show ?thesis
      by (simp add: findManhwa_def searchJob_def nthTitle_def submit_def andThen_def ret_def)
  next
    case (Cons c rest')
    with \<open>ts = a # rest\<close> assms(2,3) show ?thesis
      by (simp add: findManhwa_def searchJob_def nthTitle_def submit_def andThen_def ret_def)
  qed
qed

lemma dispatch_no_match:
  assumes "ts \<noteq> []" "\<forall>t \<in> set ts. \<not> toStringThrows t"
    and "\<forall>t \<in> set (take 2 ts). \<not> uriComponentThrows t \<and> (\<forall>m n. searchR w m (Some t) n = Inr [])"
  shows "\<exists>m n what ts'. dispatch w b ts =
           (map (\<lambda>t. Search m (Some t) n) (take 2 ts), Inr (notFound what ts'))"
proof -
  have a: "\<exists>what ts'. assemble w m ts g x =
             (map (\<lambda>t. Search m (Some t) 1) (take 2 ts), Inr (notFound what ts'))" for m g x
    using findBase_no_match [OF assms, of m]
    by (auto simp add: assemble_def andThen_def ret_def)
  have c: "\<exists>what ts'. getManhwaRecommendations w ts g x =
             (map (\<lambda>t. Search Manga (Some t) 5) (take 2 ts), Inr (notFound what ts'))" for g x
    using findManhwa_no_match [OF assms]
    by (auto simp add: getManhwaRecommendations_def andThen_def ret_def)
  have "dispatch w b ts = assemble w Anime ts (req_genres b) (req_exclude b) \<or>
        dispatch w b ts = getManhwaRecommendations w ts (req_genres b) (req_exclude b) \<or>
        dispatch w b ts = assemble w Manga ts (req_genres b) (req_exclude b)"
    by (simp add: dispatch_def getMangaRecommendations_def getAnimeRecommendations_def)
  then consider "dispatch w b ts = assemble w Anime ts (req_genres b) (req_exclude b)"
    | "dispatch w b ts = getManhwaRecommendations w ts (req_genres b) (req_exclude b)"
    | "dispatch w b ts = assemble w Manga ts (req_genres b) (req_exclude b)"
    by blast
  then show ?thesis
  proof cases
    case 1
    with a [of Anime "req_genres b" "req_exclude b"] show ?thesis by metis
  next
    case 2
    with c [of "req_genres b" "req_exclude b"] show ?thesis by metis
  next
    case 3
    with a [of Manga "req_genres b" "req_exclude b"] show ?thesis by metis
  qed
qed

lemma findBase_first_fails:
  assumes "ts \<noteq> []" "searchJob w m (Some (hd ts)) 1 = Inl e"
  shows "findBase w m ts = ([Search m (Some (hd ts)) 1], Inl e)"
  using assms by (cases ts) (simp_all add: findBase_def nthTitle_def submit_def andThen_def)

lemma findManhwa_first_fails:
  assumes "ts \<noteq> []" "searchJob w Manga (Some (hd ts)) 5 = Inl e"
  shows "findManhwa w ts = ([Search Manga (Some (hd ts)) 5], Inl e)"
  using assms by (cases ts) (simp_all add: findManhwa_def nthTitle_def submit_def andThen_def)

lemma dispatch_first_fails:
  assumes "ts \<noteq> []" "\<forall>m n. searchJob w m (Some (hd ts)) n = Inl e"
  shows "\<exists>m n. dispatch w b ts = ([Search m (Some (hd ts)) n], Inl e)"
proof -
  have a: "assemble w m ts g x = ([Search m (Some (hd ts)) 1], Inl e)" for m g x
    using findBase_first_fails [OF assms(1), of w m e] assms(2)
    by (simp add: assemble_def andThen_def)
  have c: "getManhwaRecommendations w ts g x = ([Search Manga (Some (hd ts)) 5], Inl e)" for g x
    using findManhwa_first_fails [OF assms(1), of w e] assms(2)
    by (simp add: getManhwaRecommendations_def andThen_def)
  have "dispatch w b ts = assemble w Anime ts (req_genres b) (req_exclude b) \<or>
        dispatch w b ts = getManhwaRecommendations w ts (req_genres b) (req_exclude b) \<or>
        dispatch w b ts = assemble w Manga ts (req_genres b) (req_exclude b)"
    by (simp add: dispatch_def getMangaRecommendations_def getAnimeRecommendations_def)
  then consider "dispatch w b ts = assemble w Anime ts (req_genres b) (req_exclude b)"
    | "dispatch w b ts = getManhwaRecommendations w ts (req_genres b) (req_exclude b)"
    | "dispatch w b ts = assemble w Manga ts (req_genres b) (req_exclude b)"
    by blast
  then show ?thesis
  proof cases
    case 1
    with a [of Anime] show ?thesis by metis
  next
    case 2
    with c show ?thesis by metis
  next
    case 3
    with a [of Manga] show ?thesis by metis
  qed
qed

lemma mapE_lowerOne: "mapE (lowerOne w) (map JStr xs) = Inr (map (toLowerCase w) xs)"
  by (induction xs) simp_all

lemma filterGiven_array: "filterGiven w (Some (JArr xs)) = Inr (xs \<noteq> [])"
  by (simp add: filterGiven_def)

lemma crowdRec_genres:
  assumes "crowdRec m ts c e = Inr r"
  shows "genreNames e = Inr (rec_genres r)"
  using assms by (auto simp add: crowdRec_def bindE_def split: sum.splits option.splits)

lemma crowdOne_filters:
  assumes "detailsR w m (crowd_id c) = Inr e" "crowdRec m ts c e = Inr r"
  shows "crowdOne w m ts (Some (JArr (map JStr wanted))) (Some (JArr (map JStr unwanted))) c =
           ([Details m (crowd_id c)],
            Inr (if (wanted = [] \<or>
                     matchesSome (map (toLowerCase w) wanted) (map (toLowerCase w) (rec_genres r))) \<and>
                    \<not> matchesSome (map (toLowerCase w) unwanted) (map (toLowerCase w) (rec_genres r))
                 then Some r else None))"
proof -
  have g: "genreNamesLower w e = Inr (map (toLowerCase w) (rec_genres r))"
    using crowdRec_genres [OF assms(2)] by (simp add: genreNamesLower_def bindE_def)
  have pg: "passesGenres w (Some (JArr (map JStr wanted))) e =
              Inr (wanted = [] \<or>
                   matchesSome (map (toLowerCase w) wanted) (map (toLowerCase w) (rec_genres r)))"
    by (simp add: passesGenres_def filterGiven_array g mapE_lowerOne bindE_def)
  have px: "passesExclude w (Some (JArr (map JStr unwanted))) e =
              Inr (\<not> matchesSome (map (toLowerCase w) unwanted) (map (toLowerCase w) (rec_genres r)))"
    by (simp add: passesExclude_def filterGiven_array g mapE_lowerOne bindE_def matchesSome_def)
  show ?thesis
    by (simp add: crowdOne_def assms pg px act_defs)
qed

lemma fromBase_crowd_only:
  assumes "\<forall>i cs. recsR w m i = Inr cs \<longrightarrow> cs \<noteq> [] \<longrightarrow>
             crowdTier w m ts g x cs = crowdTier w m ts g' x' cs"
  shows "fromBase w m ts g x base = fromBase w m ts g' x' base"
proof (cases "recsR w m (mal_id base)")
  case (Inl e)
  then show ?thesis by (simp add: fromBase_def submit_def andThen_def)
next
  case (Inr cs)
  show ?thesis
  proof (cases "cs = []")
    case True
    with Inr show ?thesis by (simp add: fromBase_def submit_def andThen_def)
  next
    case False
    with assms Inr have "crowdTier w m ts g x cs = crowdTier w m ts g' x' cs" by blast
    with Inr False show ?thesis by (simp add: fromBase_def submit_def andThen_def)
  qed
qed

lemma assemble_crowd_only:
  assumes "\<forall>i cs. recsR w m i = Inr cs \<longrightarrow> cs \<noteq> [] \<longrightarrow>
             crowdTier w m ts g x cs = crowdTier w m ts g' x' cs"
  shows "assemble w m ts g x = assemble w m ts g' x'"
proof -
  have "(\<lambda>b. case b of Inl resp \<Rightarrow> ret resp | Inr base \<Rightarrow> fromBase w m ts g x base) =
        (\<lambda>b. case b of Inl resp \<Rightarrow> ret resp | Inr base \<Rightarrow> fromBase w m ts g' x' base)"
    using fromBase_crowd_only [OF assms] by (auto split: sum.splits)
  then show ?thesis by (simp add: assemble_def)
qed

subsection \<open>Runs of the model\<close>

text \<open>
  The shipped front end sends \<open>genres\<close> as the text of an input field. A non-empty string
  passes \<open>genres && genres.length > 0\<close> and has no \<open>map\<close>: in the manhwa assembler the
  TypeError ends the request, in the other two it is caught for each crowd-sourced entry.
\<close>

lemma example_manhwa_string_filter:
  "recommend catalogue
     \<lparr>req_titles = Some (JArr [JStr ''Base'']), req_genres = Some (JStr ''comedy''),
      req_exclude = None, req_mediaType = Some (JStr ''manhwa'')\<rparr> =
   ([Search Manga (Some (JStr ''Base'')) 5, SearchManhwa],
    \<lparr>status = 500, body = ErrorBody (Failed (TypeError ''map''))\<rparr>)"
  by (simp add: eval_defs act_defs)

lemma example_manga_string_filter:
  "\<exists>recs. recommend catalogue
     \<lparr>req_titles = Some (JArr [JStr ''Base'']), req_genres = Some (JStr ''comedy''),
      req_exclude = None, req_mediaType = None\<rparr> =
   ([Search Manga (Some (JStr ''Base'')) 1, Recommendations Manga 2, Details Manga 10,
     Details Manga 11, ByGenre Manga 6, Top Manga 5],
    \<lparr>status = 200, body = Result recs ''Base'' ''manga''\<rparr>) \<and>
   map rec_title recs = [''Genre Horror'', ''Genre Drama'', ''Genre Sports'', ''Top One'', ''Top Two'']"
  by (simp add: eval_defs act_defs)

subsection \<open>The claims about the endpoint\<close>

text \<open>
  C7. The error statuses of the endpoint. If \<open>titles\<close> is missing (absent or \<open>null\<close>) or
  empty (the empty array or the empty string), the response is 400 and no job was
  submitted. If \<open>titles\<close> is a non-empty array and the searches for its first two titles
  go out and find nothing, the response is 404, for each of the three media types, and
  the jobs submitted are exactly these searches. A failure that is none of the two is
  answered with 500 and the error as its details: so it is when the first search fails,
  be it that the catalogue fails or that the title cannot be encoded and the job throws
  before anything is sent, and so it is for whatever else is thrown after the check of
  \<open>titles\<close>. And every response is one of four: 200 with a result, 400 without a submitted
  job, 404 naming what was not found, or 500 with the error.
\<close>

theorem error_status_mapping:
  "(req_titles b \<in> {None, Some JNull, Some (JArr []), Some (JStr [])} \<longrightarrow>
      recommend w b = ([], \<lparr>status = 400, body = ErrorBody ProvideTitle\<rparr>)) \<and>
   (req_titles b = Some (JArr ts) \<and> ts \<noteq> [] \<and> \<not> toStringThrows (mediaTypeOf b) \<and>
    (\<forall>t \<in> set ts. \<not> toStringThrows t) \<and>
    (\<forall>t \<in> set (take 2 ts).
        \<not> uriComponentThrows t \<and> (\<forall>m n. searchR w m (Some t) n = Inr [])) \<longrightarrow>
      (\<exists>m n what ts'.
         recommend w b =
           (map (\<lambda>t. Search m (Some t) n) (take 2 ts),
            \<lparr>status = 404, body = ErrorBody (CouldNotFind what ts')\<rparr>))) \<and>
   (req_titles b = Some (JArr ts) \<and> ts \<noteq> [] \<and> \<not> toStringThrows (mediaTypeOf b) \<and>
    (\<forall>t \<in> set ts. \<not> toStringThrows t) \<and>
    (\<forall>m n. searchJob w m (Some (hd ts)) n = Inl e) \<longrightarrow>
      (\<exists>m n.
         recommend w b =
           ([Search m (Some (hd ts)) n], \<lparr>status = 500, body = ErrorBody (Failed e)\<rparr>))) \<and>
   (\<forall>l e'. truthy (req_titles b) \<and> lengthOf (req_titles b) \<noteq> Some (JNum 0) \<and>
           andThen (logLine b) (dispatch w b) = (l, Inl e') \<longrightarrow>
      recommend w b = (l, \<lparr>status = 500, body = ErrorBody (Failed e')\<rparr>)) \<and>
   (\<forall>l r. recommend w b = (l, r) \<longrightarrow>
      (status r = 200 \<and> (\<exists>recs t k. body r = Result recs t k)) \<or>
      (status r = 400 \<and> body r = ErrorBody ProvideTitle \<and> l = []) \<or>
      (status r = 404 \<and> (\<exists>what ts'. body r = ErrorBody (CouldNotFind what ts'))) \<or>
      (status r = 500 \<and> (\<exists>e'. body r = ErrorBody (Failed e'))))"
proof (intro conjI impI allI)
  assume "req_titles b \<in> {None, Some JNull, Some (JArr []), Some (JStr [])}"
  then show "recommend w b = ([], \<lparr>status = 400, body = ErrorBody ProvideTitle\<rparr>)"
    by (auto simp add: recommend_def)
next
  assume h: "req_titles b = Some (JArr ts) \<and> ts \<noteq> [] \<and> \<not> toStringThrows (mediaTypeOf b) \<and>
    (\<forall>t \<in> set ts. \<not> toStringThrows t) \<and>
    (\<forall>t \<in> set (take 2 ts).
        \<not> uriComponentThrows t \<and> (\<forall>m n. searchR w m (Some t) n = Inr []))"
  then have lg: "logLine b = ([], Inr ts)" by (simp add: logLine_def ret_def)
  from h obtain m n what ts' where
    d: "dispatch w b ts = (map (\<lambda>t. Search m (Some t) n) (take 2 ts), Inr (notFound what ts'))"
    using dispatch_no_match [of ts w b] by blast
  have "recommend w b = (map (\<lambda>t. Search m (Some t) n) (take 2 ts), notFound what ts')"
    using h lg d by (simp add: recommend_def andThen_def)
  then show "\<exists>m n what ts'.
         recommend w b =
           (map (\<lambda>t. Search m (Some t) n) (take 2 ts),
            \<lparr>status = 404, body = ErrorBody (CouldNotFind what ts')\<rparr>)"
    unfolding notFound_def by blast
next
  assume h: "req_titles b = Some (JArr ts) \<and> ts \<noteq> [] \<and> \<not> toStringThrows (mediaTypeOf b) \<and>
    (\<forall>t \<in> set ts. \<not> toStringThrows t) \<and>
    (\<forall>m n. searchJob w m (Some (hd ts)) n = Inl e)"
  then have lg: "logLine b = ([], Inr ts)" by (simp add: logLine_def ret_def)
  from h obtain m n where d: "dispatch w b ts = ([Search m (Some (hd ts)) n], Inl e)"
    using dispatch_first_fails [of ts w e b] by blast
  have "recommend w b = ([Search m (Some (hd ts)) n], \<lparr>status = 500, body = ErrorBody (Failed e)\<rparr>)"
    using h lg d by (simp add: recommend_def andThen_def)
  then show "\<exists>m n.
         recommend w b =
           ([Search m (Some (hd ts)) n], \<lparr>status = 500, body = ErrorBody (Failed e)\<rparr>)"
    by blast
next
  fix l e'
  assume "truthy (req_titles b) \<and> lengthOf (req_titles b) \<noteq> Some (JNum 0) \<and>
           andThen (logLine b) (dispatch w b) = (l, Inl e')"
  then show "recommend w b = (l, \<lparr>status = 500, body = ErrorBody (Failed e')\<rparr>)"
    by (simp add: recommend_def)
next
  fix l r
  assume r: "recommend w b = (l, r)"
  show "(status r = 200 \<and> (\<exists>recs t k. body r = Result recs t k)) \<or>
      (status r = 400 \<and> body r = ErrorBody ProvideTitle \<and> l = []) \<or>
      (status r = 404 \<and> (\<exists>what ts'. body r = ErrorBody (CouldNotFind what ts'))) \<or>
      (status r = 500 \<and> (\<exists>e'. body r = ErrorBody (Failed e')))"
  proof (cases "\<not> truthy (req_titles b) \<or> lengthOf (req_titles b) = Some (JNum 0)")
    case True
    with r show ?thesis by (auto simp add: recommend_def)
  next
    case False
    obtain l' res where a: "andThen (logLine b) (dispatch w b) = (l', res)"
      by (cases "andThen (logLine b) (dispatch w b)")
    show ?thesis
    proof (cases res)
      case (Inl e')
      with r a False show ?thesis by (auto simp add: recommend_def)
    next
      case (Inr r')
      with r a False have eq: "r = r'" by (auto simp add: recommend_def)
      from a Inr obtain l1 v l2 where "dispatch w b v = (l2, Inr r')"
        by (auto elim: andThen_Inr)
      then have "assembled r" using dispatch_assembled eq by blast
      from assembled_cases [OF this] show ?thesis by blast
    qed
  qed
qed

theorem error_status_mapping_witness:
  "recommend catalogue
     \<lparr>req_titles = Some (JArr []), req_genres = None, req_exclude = None, req_mediaType = None\<rparr> =
     ([], \<lparr>status = 400, body = ErrorBody ProvideTitle\<rparr>) \<and>
   (\<exists>m n what ts'.
      recommend emptyCatalogue
        \<lparr>req_titles = Some (JArr [JStr ''a'', JStr ''b'', JStr ''c'']), req_genres = None,
         req_exclude = None, req_mediaType = Some (JStr ''anime'')\<rparr> =
        (map (\<lambda>t. Search m (Some t) n) (take 2 [JStr ''a'', JStr ''b'', JStr ''c'']),
         \<lparr>status = 404, body = ErrorBody (CouldNotFind what ts')\<rparr>)) \<and>
   (\<exists>m n.
      recommend emptyCatalogue
        \<lparr>req_titles = Some (JArr [JStr [CHR 0xED, CHR 0xA0, CHR 0x80]]), req_genres = None,
         req_exclude = None, req_mediaType = None\<rparr> =
        ([Search m (Some (hd [JStr [CHR 0xED, CHR 0xA0, CHR 0x80]])) n],
         \<lparr>status = 500, body = ErrorBody (Failed (URIError ''URI malformed''))\<rparr>)) \<and>
   recommend (catalogue\<lparr>recsR := (\<lambda>m i. Inl (UpstreamError ''timeout''))\<rparr>)
     \<lparr>req_titles = Some (JArr [JStr ''a'']), req_genres = None, req_exclude = None,
      req_mediaType = None\<rparr> =
     ([Search Manga (Some (JStr ''a'')) 1, Recommendations Manga 2],
      \<lparr>status = 500, body = ErrorBody (Failed (UpstreamError ''timeout''))\<rparr>) \<and>
   (\<exists>l r. recommend catalogue
       \<lparr>req_titles = Some (JArr [JStr ''Base'']), req_genres = None, req_exclude = None,
        req_mediaType = Some (JStr ''manhwa'')\<rparr> = (l, r) \<and>
     ((status r = 200 \<and> (\<exists>recs t k. body r = Result recs t k)) \<or>
      (status r = 400 \<and> body r = ErrorBody ProvideTitle \<and> l = []) \<or>
      (status r = 404 \<and> (\<exists>what ts'. body r = ErrorBody (CouldNotFind what ts'))) \<or>
      (status r = 500 \<and> (\<exists>e'. body r = ErrorBody (Failed e')))))"
proof -
  let ?b0 = "\<lparr>req_titles = Some (JArr []), req_genres = None, req_exclude = None,
      req_mediaType = None\<rparr>"
  let ?t1 = "[JStr ''a'', JStr ''b'', JStr ''c'']"
  let ?b1 = "\<lparr>req_titles = Some (JArr ?t1), req_genres = None,
      req_exclude = None, req_mediaType = Some (JStr ''anime'')\<rparr>"
  let ?t4 = "[JStr [CHR 0xED, CHR 0xA0, CHR 0x80]]"
  let ?b4 = "\<lparr>req_titles = Some (JArr ?t4), req_genres = None,
      req_exclude = None, req_mediaType = None\<rparr>"
  let ?b2 = "\<lparr>req_titles = Some (JArr [JStr ''a'']), req_genres = None, req_exclude = None,
      req_mediaType = None\<rparr>"
  let ?b3 = "\<lparr>req_titles = Some (JArr [JStr ''Base'']), req_genres = None, req_exclude = None,
        req_mediaType = Some (JStr ''manhwa'')\<rparr>"
  let ?w2 = "catalogue\<lparr>recsR := (\<lambda>m i. Inl (UpstreamError ''timeout''))\<rparr>"
  let ?e = "URIError ''URI malformed''"
  have h0: "req_titles ?b0 \<in> {None, Some JNull, Some (JArr []), Some (JStr [])}" by simp
  have c0: "recommend catalogue ?b0 = ([], \<lparr>status = 400, body = ErrorBody ProvideTitle\<rparr>)"
    by (rule error_status_mapping [of ?b0 catalogue "[]" ?e, THEN conjunct1, THEN mp, OF h0])
  have h1: "req_titles ?b1 = Some (JArr ?t1) \<and> ?t1 \<noteq> [] \<and>
      \<not> toStringThrows (mediaTypeOf ?b1) \<and>
      (\<forall>t \<in> set ?t1. \<not> toStringThrows t) \<and>
      (\<forall>t \<in> set (take 2 ?t1).
          \<not> uriComponentThrows t \<and> (\<forall>m n. searchR emptyCatalogue m (Some t) n = Inr []))"
    by (simp add: mediaTypeOf_def emptyCatalogue_def catalogue_def)
  have c1: "\<exists>m n what ts'. recommend emptyCatalogue ?b1 =
        (map (\<lambda>t. Search m (Some t) n) (take 2 ?t1),
         \<lparr>status = 404, body = ErrorBody (CouldNotFind what ts')\<rparr>)"
    by (rule error_status_mapping [of ?b1 emptyCatalogue ?t1 ?e,
          THEN conjunct2, THEN conjunct1, THEN mp, OF h1])
  have h4: "req_titles ?b4 = Some (JArr ?t4) \<and> ?t4 \<noteq> [] \<and>
      \<not> toStringThrows (mediaTypeOf ?b4) \<and>
      (\<forall>t \<in> set ?t4. \<not> toStringThrows t) \<and>
      (\<forall>m n. searchJob emptyCatalogue m (Some (hd ?t4)) n = Inl ?e)"
    by (simp add: mediaTypeOf_def searchJob_def surrogateSeconds_def)
  have c4: "\<exists>m n. recommend emptyCatalogue ?b4 =
        ([Search m (Some (hd ?t4)) n], \<lparr>status = 500, body = ErrorBody (Failed ?e)\<rparr>)"
    by (rule error_status_mapping [of ?b4 emptyCatalogue ?t4 ?e,
          THEN conjunct2, THEN conjunct2, THEN conjunct1, THEN mp, OF h4])
  have h2: "truthy (req_titles ?b2) \<and> lengthOf (req_titles ?b2) \<noteq> Some (JNum 0) \<and>
      andThen (logLine ?b2) (dispatch ?w2 ?b2) =
        ([Search Manga (Some (JStr ''a'')) 1, Recommendations Manga 2],
         Inl (UpstreamError ''timeout''))"
    by (simp add: eval_defs act_defs)
  have c2: "recommend ?w2 ?b2 =
     ([Search Manga (Some (JStr ''a'')) 1, Recommendations Manga 2],
      \<lparr>status = 500, body = ErrorBody (Failed (UpstreamError ''timeout''))\<rparr>)"
    by (rule error_status_mapping [of ?b2 ?w2 "[]" ?e,
          THEN conjunct2, THEN conjunct2, THEN conjunct2, THEN conjunct1, rule_format, OF h2])
  obtain l r where e: "recommend catalogue ?b3 = (l, r)" by (cases "recommend catalogue ?b3")
  have c3: "(status r = 200 \<and> (\<exists>recs t k. body r = Result recs t k)) \<or>
      (status r = 400 \<and> body r = ErrorBody ProvideTitle \<and> l = []) \<or>
      (status r = 404 \<and> (\<exists>what ts'. body r = ErrorBody (CouldNotFind what ts'))) \<or>
      (status r = 500 \<and> (\<exists>e'. body r = ErrorBody (Failed e')))"
    by (rule error_status_mapping [of ?b3 catalogue "[]" ?e,
          THEN conjunct2, THEN conjunct2, THEN conjunct2, THEN conjunct2, rule_format, OF e])
  have c3': "\<exists>l r. recommend catalogue ?b3 = (l, r) \<and>
     ((status r = 200 \<and> (\<exists>recs t k. body r = Result recs t k)) \<or>
      (status r = 400 \<and> body r = ErrorBody ProvideTitle \<and> l = []) \<or>
      (status r = 404 \<and> (\<exists>what ts'. body r = ErrorBody (CouldNotFind what ts'))) \<or>
      (status r = 500 \<and> (\<exists>e'. body r = ErrorBody (Failed e'))))"
    by (rule exI [of _ l], rule exI [of _ r], rule conjI) (rule e c3)+
  show ?thesis by (rule conjI c0 c1 c4 c2 c3')+
qed

text \<open>
  C8. Every response with a result that one of the three assemblers returns holds at most
  five recommendations, however many candidates the tiers collected.
\<close>

theorem recommendations_capped:
  assumes "a = getMangaRecommendations w ts g x \<or> a = getManhwaRecommendations w ts g x \<or>
           a = getAnimeRecommendations w ts g x"
    and "a = (l, Inr r)"
    and "body r = Result recs t k"
  shows "length recs \<le> 5"
proof -
  from assms(1) have "assembled r"
  proof (elim disjE)
    assume "a = getMangaRecommendations w ts g x"
    with assms(2) show ?thesis by (auto intro: manga_assembled)
  next
    assume "a = getManhwaRecommendations w ts g x"
    with assms(2) show ?thesis by (auto intro: manhwa_assembled)
  next
    assume "a = getAnimeRecommendations w ts g x"
    with assms(2) show ?thesis by (auto intro: anime_assembled)
  qed
  then show ?thesis using assms(3) by (simp add: assembled.simps)
qed

theorem recommendations_capped_witness:
  "\<exists>l r recs.
     getMangaRecommendations catalogue [JStr ''Base''] None None = (l, Inr r) \<and>
     body r = Result recs ''Base'' ''manga'' \<and>
     map rec_title recs =
       [''Crowd Horror'', ''Crowd Comedy'', ''Genre Horror'', ''Genre Drama'', ''Genre Sports''] \<and>
     length recs \<le> 5"
proof -
  have "\<exists>l r recs.
     getMangaRecommendations catalogue [JStr ''Base''] None None = (l, Inr r) \<and>
     body r = Result recs ''Base'' ''manga'' \<and>
     map rec_title recs =
       [''Crowd Horror'', ''Crowd Comedy'', ''Genre Horror'', ''Genre Drama'', ''Genre Sports'']"
    by (simp add: eval_defs act_defs)
  then obtain l r recs where
    e: "getMangaRecommendations catalogue [JStr ''Base''] None None = (l, Inr r)"
    and b: "body r = Result recs ''Base'' ''manga''"
    and t: "map rec_title recs =
       [''Crowd Horror'', ''Crowd Comedy'', ''Genre Horror'', ''Genre Drama'', ''Genre Sports'']"
    by (elim exE conjE)
  have a: "getMangaRecommendations catalogue [JStr ''Base''] None None =
             getMangaRecommendations catalogue [JStr ''Base''] None None \<or>
           getMangaRecommendations catalogue [JStr ''Base''] None None =
             getManhwaRecommendations catalogue [JStr ''Base''] None None \<or>
           getMangaRecommendations catalogue [JStr ''Base''] None None =
             getAnimeRecommendations catalogue [JStr ''Base''] None None"
    by (rule disjI1) (rule refl)
  have c: "length recs \<le> 5" by (rule recommendations_capped [OF a e b])
  show ?thesis
    by (rule exI [of _ l], rule exI [of _ r], rule exI [of _ recs]) (intro conjI, (rule e b t c)+)
qed

text \<open>
  C9. In the manga and the anime assembler the filters \<open>genres\<close> and \<open>exclude\<close> act on the
  crowd-sourced tier only. There they do act: given as arrays of strings, the callback
  of the crowd-sourced tier keeps an entry exactly when \<open>genres\<close> is empty or names, up to
  case, one of the entry's genres, and \<open>exclude\<close> names none of them. The rest of the
  assembler does not see the filters: two requests whose crowd-sourced tiers come out
  the same get the same response, whatever their filters are. And on the small
  catalogue, a title named \<open>Base\<close> with the genre Horror excluded loses the crowd-sourced
  horror title and still gets a title of the genre tier whose genres include Horror;
  with the genre Horror requested it loses the crowd-sourced comedy and still gets
  titles of the fallback tiers that have none of the requested genres.
\<close>

theorem fallback_tiers_ignore_filters:
  "(detailsR w m (crowd_id c) = Inr e \<and> crowdRec m ts c e = Inr r \<longrightarrow>
      crowdOne w m ts (Some (JArr (map JStr wanted))) (Some (JArr (map JStr unwanted))) c =
        ([Details m (crowd_id c)],
         Inr (if (wanted = [] \<or>
                  matchesSome (map (toLowerCase w) wanted) (map (toLowerCase w) (rec_genres r))) \<and>
                 \<not> matchesSome (map (toLowerCase w) unwanted) (map (toLowerCase w) (rec_genres r))
              then Some r else None))) \<and>
   ((\<forall>i cs. recsR w Manga i = Inr cs \<longrightarrow> cs \<noteq> [] \<longrightarrow>
        crowdTier w Manga ts g x cs = crowdTier w Manga ts g' x' cs) \<longrightarrow>
      getMangaRecommendations w ts g x = getMangaRecommendations w ts g' x') \<and>
   ((\<forall>i cs. recsR w Anime i = Inr cs \<longrightarrow> cs \<noteq> [] \<longrightarrow>
        crowdTier w Anime ts g x cs = crowdTier w Anime ts g' x' cs) \<longrightarrow>
      getAnimeRecommendations w ts g x = getAnimeRecommendations w ts g' x') \<and>
   (\<exists>l recs.
      getMangaRecommendations catalogue [JStr ''Base''] None (Some (JArr [JStr ''Horror''])) =
        (l, Inr \<lparr>status = 200, body = Result recs ''Base'' ''manga''\<rparr>) \<and>
      map rec_title recs = [''Crowd Comedy'', ''Genre Horror'', ''Genre Drama'', ''Genre Sports'', ''Top One''] \<and>
      map rec_genres recs = [[''Comedy''], [''Action'', ''Horror''], [''Action'', ''Drama''], [''Action'', ''Sports''], [''Drama'']]) \<and>
   (\<exists>l recs.
      getMangaRecommendations catalogue [JStr ''Base''] (Some (JArr [JStr ''Horror''])) None =
        (l, Inr \<lparr>status = 200, body = Result recs ''Base'' ''manga''\<rparr>) \<and>
      map rec_title recs = [''Crowd Horror'', ''Genre Horror'', ''Genre Drama'', ''Genre Sports'', ''Top One''] \<and>
      map rec_genres recs = [[''Horror''], [''Action'', ''Horror''], [''Action'', ''Drama''], [''Action'', ''Sports''], [''Drama'']]) \<and>
   (\<exists>l recs.
      getAnimeRecommendations catalogue [JStr ''Base''] None (Some (JArr [JStr ''Horror''])) =
        (l, Inr \<lparr>status = 200, body = Result recs ''Base'' ''anime''\<rparr>) \<and>
      map rec_title recs = [''Crowd Comedy'', ''Genre Horror'', ''Genre Drama'', ''Genre Sports'', ''Top One''] \<and>
      map rec_genres recs = [[''Comedy''], [''Action'', ''Horror''], [''Action'', ''Drama''], [''Action'', ''Sports''], [''Drama'']]) \<and>
   (\<exists>l recs.
      getAnimeRecommendations catalogue [JStr ''Base''] (Some (JArr [JStr ''Horror''])) None =
        (l, Inr \<lparr>status = 200, body = Result recs ''Base'' ''anime''\<rparr>) \<and>
      map rec_title recs = [''Crowd Horror'', ''Genre Horror'', ''Genre Drama'', ''Genre Sports'', ''Top One''] \<and>
      map rec_genres recs = [[''Horror''], [''Action'', ''Horror''], [''Action'', ''Drama''], [''Action'', ''Sports''], [''Drama'']])"
proof (intro conjI impI)
  assume "detailsR w m (crowd_id c) = Inr e \<and> crowdRec m ts c e = Inr r"
  then show "crowdOne w m ts (Some (JArr (map JStr wanted))) (Some (JArr (map JStr unwanted))) c =
        ([Details m (crowd_id c)],
         Inr (if (wanted = [] \<or>
                  matchesSome (map (toLowerCase w) wanted) (map (toLowerCase w) (rec_genres r))) \<and>
                 \<not> matchesSome (map (toLowerCase w) unwanted) (map (toLowerCase w) (rec_genres r))
              then Some r else None))"
    using crowdOne_filters [of w m c e ts r wanted unwanted] by blast
next
  assume "\<forall>i cs. recsR w Manga i = Inr cs \<longrightarrow> cs \<noteq> [] \<longrightarrow>
        crowdTier w Manga ts g x cs = crowdTier w Manga ts g' x' cs"
  then show "getMangaRecommendations w ts g x = getMangaRecommendations w ts g' x'"
    unfolding getMangaRecommendations_def by (rule assemble_crowd_only)
next
  assume "\<forall>i cs. recsR w Anime i = Inr cs \<longrightarrow> cs \<noteq> [] \<longrightarrow>
        crowdTier w Anime ts g x cs = crowdTier w Anime ts g' x' cs"
  then show "getAnimeRecommendations w ts g x = getAnimeRecommendations w ts g' x'"
    unfolding getAnimeRecommendations_def by (rule assemble_crowd_only)
next
  show "\<exists>l recs.
      getMangaRecommendations catalogue [JStr ''Base''] None (Some (JArr [JStr ''Horror''])) =
        (l, Inr \<lparr>status = 200, body = Result recs ''Base'' ''manga''\<rparr>) \<and>
      map rec_title recs = [''Crowd Comedy'', ''Genre Horror'', ''Genre Drama'', ''Genre Sports'', ''Top One''] \<and>
      map rec_genres recs = [[''Comedy''], [''Action'', ''Horror''], [''Action'', ''Drama''], [''Action'', ''Sports''], [''Drama'']]"
    by (simp add: eval_defs act_defs)
next
  show "\<exists>l recs.
      getMangaRecommendations catalogue [JStr ''Base''] (Some (JArr [JStr ''Horror''])) None =
        (l, Inr \<lparr>status = 200, body = Result recs ''Base'' ''manga''\<rparr>) \<and>
      map rec_title recs = [''Crowd Horror'', ''Genre Horror'', ''Genre Drama'', ''Genre Sports'', ''Top One''] \<and>
      map rec_genres recs = [[''Horror''], [''Action'', ''Horror''], [''Action'', ''Drama''], [''Action'', ''Sports''], [''Drama'']]"
    by (simp add: eval_defs act_defs)
next
  show "\<exists>l recs.
      getAnimeRecommendations catalogue [JStr ''Base''] None (Some (JArr [JStr ''Horror''])) =
        (l, Inr \<lparr>status = 200, body = Result recs ''Base'' ''anime''\<rparr>) \<and>
      map rec_title recs = [''Crowd Comedy'', ''Genre Horror'', ''Genre Drama'', ''Genre Sports'', ''Top One''] \<and>
      map rec_genres recs = [[''Comedy''], [''Action'', ''Horror''], [''Action'', ''Drama''], [''Action'', ''Sports''], [''Drama'']]"
    by (simp add: eval_defs act_defs)
next
  show "\<exists>l recs.
      getAnimeRecommendations catalogue [JStr ''Base''] (Some (JArr [JStr ''Horror''])) None =
        (l, Inr \<lparr>status = 200, body = Result recs ''Base'' ''anime''\<rparr>) \<and>
      map rec_title recs = [''Crowd Horror'', ''Genre Horror'', ''Genre Drama'', ''Genre Sports'', ''Top One''] \<and>
      map rec_genres recs = [[''Horror''], [''Action'', ''Horror''], [''Action'', ''Drama''], [''Action'', ''Sports''], [''Drama'']]"
    by (simp add: eval_defs act_defs)
qed

theorem fallback_tiers_ignore_filters_witness:
  "detailsR catalogue Manga (crowd_id \<lparr>crowd_id = 10, votes = 7\<rparr>) =
     Inr (mkEntry 10 ''Crowd Horror'' [''Horror'']) \<and>
   (\<exists>r. crowdRec Manga [JStr ''Base''] \<lparr>crowd_id = 10, votes = 7\<rparr>
           (mkEntry 10 ''Crowd Horror'' [''Horror'']) = Inr r \<and>
         rec_genres r = [''Horror'']) \<and>
   crowdOne catalogue Manga [JStr ''Base''] (Some (JArr (map JStr [])))
     (Some (JArr (map JStr [''HORROR'']))) \<lparr>crowd_id = 10, votes = 7\<rparr> =
     ([Details Manga 10], Inr None) \<and>
   recsR catalogue Manga 2 = Inr [\<lparr>crowd_id = 10, votes = 7\<rparr>, \<lparr>crowd_id = 11, votes = 3\<rparr>] \<and>
   crowdTier catalogue Manga [JStr ''Base''] None (Some (JArr [JStr ''Sports'']))
     [\<lparr>crowd_id = 10, votes = 7\<rparr>, \<lparr>crowd_id = 11, votes = 3\<rparr>] =
   crowdTier catalogue Manga [JStr ''Base''] None None
     [\<lparr>crowd_id = 10, votes = 7\<rparr>, \<lparr>crowd_id = 11, votes = 3\<rparr>] \<and>
   getMangaRecommendations catalogue [JStr ''Base''] None (Some (JArr [JStr ''Sports''])) =
   getMangaRecommendations catalogue [JStr ''Base''] None None \<and>
   recsR catalogue Anime 2 = Inr [\<lparr>crowd_id = 10, votes = 7\<rparr>, \<lparr>crowd_id = 11, votes = 3\<rparr>] \<and>
   crowdTier catalogue Anime [JStr ''Base''] None (Some (JArr [JStr ''Sports'']))
     [\<lparr>crowd_id = 10, votes = 7\<rparr>, \<lparr>crowd_id = 11, votes = 3\<rparr>] =
   crowdTier catalogue Anime [JStr ''Base''] None None
     [\<lparr>crowd_id = 10, votes = 7\<rparr>, \<lparr>crowd_id = 11, votes = 3\<rparr>] \<and>
   getAnimeRecommendations catalogue [JStr ''Base''] None (Some (JArr [JStr ''Sports''])) =
   getAnimeRecommendations catalogue [JStr ''Base''] None None"
proof -
  let ?c = "\<lparr>crowd_id = 10, votes = 7\<rparr>"
  let ?e = "mkEntry 10 ''Crowd Horror'' [''Horror'']"
  let ?ts = "[JStr ''Base'']"
  let ?x = "Some (JArr [JStr ''Sports''])"
  have d: "detailsR catalogue Manga (crowd_id ?c) = Inr ?e" by (simp add: catalogue_def)
  have "\<exists>r. crowdRec Manga ?ts ?c ?e = Inr r \<and> rec_genres r = [''Horror'']"
    by (simp add: crowdRec_def genreNames_def mkEntry_def bindE_def)
  then obtain r where cr: "crowdRec Manga ?ts ?c ?e = Inr r" and rg: "rec_genres r = [''Horror'']"
    by (elim exE conjE)
  have cr': "\<exists>r. crowdRec Manga ?ts ?c ?e = Inr r \<and> rec_genres r = [''Horror'']"
    by (rule exI [of _ r], rule conjI) (rule cr rg)+
  have k: "crowdOne catalogue Manga ?ts (Some (JArr (map JStr []))) (Some (JArr (map JStr [''HORROR''])))
             ?c =
           ([Details Manga (crowd_id ?c)],
            Inr (if (([] :: string list) = [] \<or>
                     matchesSome (map (toLowerCase catalogue) []) (map (toLowerCase catalogue) (rec_genres r))) \<and>
                    \<not> matchesSome (map (toLowerCase catalogue) [''HORROR''])
                        (map (toLowerCase catalogue) (rec_genres r))
                 then Some r else None))"
    by (rule fallback_tiers_ignore_filters [of catalogue Manga ?c ?e ?ts r "[]" "[''HORROR'']",
          THEN conjunct1, THEN mp, OF conjI [OF d cr]])
  have k': "crowdOne catalogue Manga ?ts (Some (JArr (map JStr []))) (Some (JArr (map JStr [''HORROR''])))
             ?c = ([Details Manga 10], Inr None)"
    unfolding k by (simp add: rg matchesSome_def catalogue_def asciiLowerCase_def lowerChar_def)
  have h1: "\<forall>i cs. recsR catalogue Manga i = Inr cs \<longrightarrow> cs \<noteq> [] \<longrightarrow>
      crowdTier catalogue Manga ?ts None ?x cs = crowdTier catalogue Manga ?ts None None cs"
    by (simp add: eval_defs act_defs)
  have h2: "\<forall>i cs. recsR catalogue Anime i = Inr cs \<longrightarrow> cs \<noteq> [] \<longrightarrow>
      crowdTier catalogue Anime ?ts None ?x cs = crowdTier catalogue Anime ?ts None None cs"
    by (simp add: eval_defs act_defs)
  have c1: "getMangaRecommendations catalogue ?ts None ?x =
            getMangaRecommendations catalogue ?ts None None"
    by (rule fallback_tiers_ignore_filters [of catalogue _ _ _ ?ts _ _ _ None ?x None None,
          THEN conjunct2, THEN conjunct1, THEN mp, OF h1])
  have c2: "getAnimeRecommendations catalogue ?ts None ?x =
            getAnimeRecommendations catalogue ?ts None None"
    by (rule fallback_tiers_ignore_filters [of catalogue _ _ _ ?ts _ _ _ None ?x None None,
          THEN conjunct2, THEN conjunct2, THEN conjunct1, THEN mp, OF h2])
  have r1: "recsR catalogue Manga 2 = Inr [\<lparr>crowd_id = 10, votes = 7\<rparr>, \<lparr>crowd_id = 11, votes = 3\<rparr>]"
    and r2: "recsR catalogue Anime 2 = Inr [\<lparr>crowd_id = 10, votes = 7\<rparr>, \<lparr>crowd_id = 11, votes = 3\<rparr>]"
    by (simp_all add: catalogue_def)
  have e1: "crowdTier catalogue Manga ?ts None ?x
              [\<lparr>crowd_id = 10, votes = 7\<rparr>, \<lparr>crowd_id = 11, votes = 3\<rparr>] =
            crowdTier catalogue Manga ?ts None None
              [\<lparr>crowd_id = 10, votes = 7\<rparr>, \<lparr>crowd_id = 11, votes = 3\<rparr>]"
    by (rule h1 [rule_format, OF r1]) simp
  have e2: "crowdTier catalogue Anime ?ts None ?x
              [\<lparr>crowd_id = 10, votes = 7\<rparr>, \<lparr>crowd_id = 11, votes = 3\<rparr>] =
            crowdTier catalogue Anime ?ts None None
              [\<lparr>crowd_id = 10, votes = 7\<rparr>, \<lparr>crowd_id = 11, votes = 3\<rparr>]"
    by (rule h2 [rule_format, OF r2]) simp
  show ?thesis by (intro conjI) (rule d cr' k' r1 e1 c1 r2 e2 c2)+
qed

text \<open>
  C10. If \<open>titles\<close> is truthy, is not an array, and its \<open>length\<close> is not the number 0 (a
  non-empty string, an object with a \<open>length\<close> other than 0, and also a value that has no
  \<open>length\<close>), the check of \<open>titles\<close> passes, nothing is submitted, and the response is 500
  with a TypeError: that of \<open>titles.join\<close>, unless the conversion of \<open>mediaType\<close> to a
  string, one step earlier in the same line, has thrown already.
\<close>

theorem non_array_titles_give_500:
  assumes "req_titles b = Some t" and "truthy (Some t)" and "\<forall>ts. t \<noteq> JArr ts"
    and "lengthOf (Some t) \<noteq> Some (JNum 0)"
  shows "recommend w b =
           ([], \<lparr>status = 500,
                 body = ErrorBody (Failed (TypeError
                   (if toStringThrows (mediaTypeOf b) then ''mediaType''
                    else ''titles.join is not a function'')))\<rparr>)"
  using assms by (cases t) (simp_all add: recommend_def logLine_def andThen_def throw_def)

theorem non_array_titles_give_500_witness:
  "truthy (Some (JStr ''Naruto'')) \<and> (\<forall>ts. JStr ''Naruto'' \<noteq> JArr ts) \<and>
   lengthOf (Some (JStr ''Naruto'')) \<noteq> Some (JNum 0) \<and>
   recommend catalogue
     \<lparr>req_titles = Some (JStr ''Naruto''), req_genres = None, req_exclude = None,
      req_mediaType = None\<rparr> =
     ([], \<lparr>status = 500, body = ErrorBody (Failed (TypeError ''titles.join is not a function''))\<rparr>)"
proof -
  let ?b = "\<lparr>req_titles = Some (JStr ''Naruto''), req_genres = None, req_exclude = None,
      req_mediaType = None\<rparr>"
  have h1: "req_titles ?b = Some (JStr ''Naruto'')" by simp
  have h2: "truthy (Some (JStr ''Naruto''))" by simp
  have h3: "\<forall>ts. JStr ''Naruto'' \<noteq> JArr ts" by simp
  have h4: "lengthOf (Some (JStr ''Naruto'')) \<noteq> Some (JNum 0)" by simp
  have m: "\<not> toStringThrows (mediaTypeOf ?b)" by (simp add: mediaTypeOf_def)
  have c: "recommend catalogue ?b =
     ([], \<lparr>status = 500, body = ErrorBody (Failed (TypeError ''titles.join is not a function''))\<rparr>)"
    using non_array_titles_give_500 [OF h1 h2 h3 h4, of catalogue] m by (simp only: if_False)
  show ?thesis by (intro conjI) (rule h2 h3 h4 c)+
qed

end
